theory Spec2Isabelle
  imports Main "HOL-Library.Multiset"
begin

section \<open>The proctoring schedule: data model\<close>

text \<open>
  The program reads one spreadsheet into a polars data frame and reshapes it. A data frame
  is stored by columns; the model keeps the columns the program tells apart:
  \<^item> the columns whose name does not start with \<open>Proctor\<close>, one record \<open>cols\<close> per sheet row
    (\<open>Date\<close>, \<open>Start time\<close>, \<open>End time\<close>, \<open>Location\<close>, \<open>Subject\<close>, \<open>Course\<close>, \<open>Section\<close>,
    \<open>Instructor\<close>, \<open>Students enrolled\<close>), every cell nullable;
  \<^item> the columns whose name starts with \<open>Proctor\<close>, each one a list of nullable cells,
    in sheet order.

  A date is a number of days, a date-time a number of milliseconds, the enrollment a whole
  number; null is \<open>None\<close>.
\<close>

record cols =
  Date :: "int option"
  Start_time :: "int option"
  End_time :: "int option"
  Location :: "string option"
  Subject :: "string option"
  Course :: "string option"
  Section :: "string option"
  Instructor :: "string option"
  Students_enrolled :: "int option"

record sheet =
  Index_rows :: "cols list"
  Proctor_columns :: "string option list list"

text \<open>A row of the long table: the non-Proctor columns and the single \<open>Proctor\<close> column.\<close>

type_synonym unpivoted_row = "cols \<times> string option"
type_synonym long_row = "cols \<times> string"

text \<open>A row of the cleaned schedule: the non-Proctor columns and the list of proctors.\<close>

type_synonym sched_row = "cols \<times> string list"

datatype error =
    TimeZoneError      \<comment> \<open>polars: the wall-clock time is ambiguous or does not exist in the zone\<close>
  | AttributeError     \<comment> \<open>Python: a method is called on \<open>None\<close>\<close>
  | TypeError          \<comment> \<open>Python: \<open>str.replace\<close> is given \<open>None\<close>\<close>
  | ValueError         \<comment> \<open>icalendar: \<open>dtstart\<close> or \<open>dtend\<close> is not a date or time\<close>
  | OSError            \<comment> \<open>Python: \<open>open(path, "wb")\<close> or the write fails\<close>


section \<open>\<open>clean_proctor_schedule\<close>\<close>

subsection \<open>\<open>unpivot\<close>, \<open>drop_nulls\<close>\<close>

text \<open>
  The column names are capitalized first (\<open>rename\<close>); the field names of the model are the
  names after that step. \<open>unpivot\<close> with the Proctor columns as value columns and all other
  columns as index: polars emits the rows of the first value column, then those of the
  second, and so on, each block in sheet order.
\<close>

definition unpivot :: "sheet \<Rightarrow> unpivoted_row list" where
  "unpivot s = concat (map (\<lambda>col. zip (Index_rows s) col) (Proctor_columns s))"

fun drop_nulls :: "unpivoted_row list \<Rightarrow> long_row list" where
  "drop_nulls [] = []"
| "drop_nulls ((k, None) # rs) = drop_nulls rs"
| "drop_nulls ((k, Some p) # rs) = (k, p) # drop_nulls rs"

subsection \<open>\<open>fill_null(strategy="forward")\<close>\<close>

text \<open>
  Every null cell takes the last non-null value above it in its column, and stays null
  when there is none. The \<open>Proctor\<close> column has no null left at this point.
\<close>

definition coalesce :: "'a option \<Rightarrow> 'a option \<Rightarrow> 'a option" where
  "coalesce x y = (case x of None \<Rightarrow> y | Some v \<Rightarrow> Some v)"

definition fill_from :: "cols \<Rightarrow> cols \<Rightarrow> cols" where
  "fill_from prev r =
     \<lparr> Date = coalesce (Date r) (Date prev),
       Start_time = coalesce (Start_time r) (Start_time prev),
       End_time = coalesce (End_time r) (End_time prev),
       Location = coalesce (Location r) (Location prev),
       Subject = coalesce (Subject r) (Subject prev),
       Course = coalesce (Course r) (Course prev),
       Section = coalesce (Section r) (Section prev),
       Instructor = coalesce (Instructor r) (Instructor prev),
       Students_enrolled = coalesce (Students_enrolled r) (Students_enrolled prev) \<rparr>"

text \<open>\<open>prev\<close> is the row above, already filled: it holds the last value seen in each column.\<close>

fun fill_after :: "cols \<Rightarrow> long_row list \<Rightarrow> long_row list" where
  "fill_after prev [] = []"
| "fill_after prev ((k, p) # rs) = (fill_from prev k, p) # fill_after (fill_from prev k) rs"

fun fill_null_forward :: "long_row list \<Rightarrow> long_row list" where
  "fill_null_forward [] = []"
| "fill_null_forward ((k, p) # rs) = (k, p) # fill_after k rs"

text \<open>The same fill, column by column, as polars runs it.\<close>

fun forward_fill_column :: "'a option \<Rightarrow> 'a option list \<Rightarrow> 'a option list" where
  "forward_fill_column seen [] = []"
| "forward_fill_column seen (x # xs) = coalesce x seen # forward_fill_column (coalesce x seen) xs"

subsection \<open>\<open>group_by(~Proctor).agg(Proctor.unique())\<close>\<close>

text \<open>
  One row per distinct combination of the non-Proctor columns (null is a key value like any
  other), holding the distinct proctors of the rows with that combination. polars leaves
  the order of the groups, and of the values \<open>unique\<close> returns, unspecified; the model
  takes the order \<open>remdups\<close> gives.
\<close>

definition group_by_agg :: "long_row list \<Rightarrow> sched_row list" where
  "group_by_agg rs =
     map (\<lambda>k. (k, remdups (map snd (filter (\<lambda>r. fst r = k) rs)))) (remdups (map fst rs))"

subsection \<open>Date and time of day combined\<close>

text \<open>
  \<open>Date.dt.combine(col.dt.time(), "ms")\<close> keeps the time of day of the cell and takes the
  day from \<open>Date\<close>; a null on either side gives null. \<open>replace_time_zone\<close> then reads the
  wall-clock value in the zone America/Toronto. The zone is the parameter \<open>tz\<close>, from
  wall-clock milliseconds to the instant, \<open>None\<close> where polars raises (a wall-clock time
  that the zone skips or repeats).
\<close>

definition ms_per_day :: int where
  "ms_per_day = 86400000"

definition dt_time :: "int \<Rightarrow> int" where
  "dt_time t = t mod ms_per_day"

definition dt_combine :: "int \<Rightarrow> int \<Rightarrow> int" where
  "dt_combine d tod = d * ms_per_day + tod"

definition combine_in_zone ::
  "(int \<Rightarrow> int option) \<Rightarrow> int option \<Rightarrow> int option \<Rightarrow> error + int option" where
  "combine_in_zone tz d t =
     (case d of
        None \<Rightarrow> Inr None
      | Some day \<Rightarrow>
          (case t of
             None \<Rightarrow> Inr None
           | Some dt \<Rightarrow>
               (case tz (dt_combine day (dt_time dt)) of
                  None \<Rightarrow> Inl TimeZoneError
                | Some i \<Rightarrow> Inr (Some i))))"

definition with_times :: "(int \<Rightarrow> int option) \<Rightarrow> sched_row \<Rightarrow> error + sched_row" where
  "with_times tz r =
     (case combine_in_zone tz (Date (fst r)) (Start_time (fst r)) of
        Inl e \<Rightarrow> Inl e
      | Inr st \<Rightarrow>
          (case combine_in_zone tz (Date (fst r)) (End_time (fst r)) of
             Inl e \<Rightarrow> Inl e
           | Inr en \<Rightarrow> Inr ((fst r)\<lparr>Start_time := st, End_time := en\<rparr>, snd r)))"

text \<open>A step that may raise, run over every row in order: the first error ends the run.\<close>

fun each_row :: "('a \<Rightarrow> error + 'b) \<Rightarrow> 'a list \<Rightarrow> error + 'b list" where
  "each_row f [] = Inr []"
| "each_row f (r # rs) =
     (case f r of
        Inl e \<Rightarrow> Inl e
      | Inr y \<Rightarrow> (case each_row f rs of Inl e \<Rightarrow> Inl e | Inr ys \<Rightarrow> Inr (y # ys)))"

subsection \<open>The stages chained\<close>

definition long_table :: "sheet \<Rightarrow> long_row list" where
  "long_table s = drop_nulls (unpivot s)"

definition filled_table :: "sheet \<Rightarrow> long_row list" where
  "filled_table s = fill_null_forward (long_table s)"

definition grouped_table :: "sheet \<Rightarrow> sched_row list" where
  "grouped_table s = group_by_agg (filled_table s)"

definition clean_proctor_schedule :: "(int \<Rightarrow> int option) \<Rightarrow> sheet \<Rightarrow> error + sched_row list" where
  "clean_proctor_schedule tz s = each_row (with_times tz) (grouped_table s)"

section \<open>\<open>create_events\<close>\<close>

subsection \<open>Python strings\<close>

text \<open>
  \<open>s.replace(old, new)\<close>: every occurrence of \<open>old\<close> in \<open>s\<close>, found from the left and
  without overlap, becomes \<open>new\<close>; an empty \<open>old\<close> matches before every character and at
  the end. \<open>s.split("-")[0]\<close> is the text before the first \<open>-\<close> (all of \<open>s\<close> when it has none).
\<close>

function replace :: "string \<Rightarrow> string \<Rightarrow> string \<Rightarrow> string" where
  "replace old new [] = (if old = [] then new else [])"
| "replace old new (c # cs) =
     (if old = [] then new @ c # replace old new cs
      else if take (length old) (c # cs) = old
        then new @ replace old new (drop (length old) (c # cs))
        else c # replace old new cs)"
  by pat_completeness auto
termination
  by (relation "measure (\<lambda>(old, new, s). length s)") auto

definition split_first :: "string \<Rightarrow> string" where
  "split_first s = takeWhile (\<lambda>c. c \<noteq> CHR ''-'') s"

fun join :: "string \<Rightarrow> string list \<Rightarrow> string" where
  "join sep [] = []"
| "join sep [x] = x"
| "join sep (x # y # ys) = x @ sep @ join sep (y # ys)"

text \<open>What an f-string prints for a cell: the text itself, a number in decimal, \<open>None\<close> for null.\<close>

fun str_nat :: "nat \<Rightarrow> string" where
  "str_nat n = (if n < 10 then [''0123456789'' ! n] else str_nat (n div 10) @ [''0123456789'' ! (n mod 10)])"

definition str_int :: "int \<Rightarrow> string" where
  "str_int i = (if i < 0 then CHR ''-'' # str_nat (nat (- i)) else str_nat (nat i))"

definition fmt :: "string option \<Rightarrow> string" where
  "fmt x = (case x of None \<Rightarrow> ''None'' | Some t \<Rightarrow> t)"

definition fmt_int :: "int option \<Rightarrow> string" where
  "fmt_int x = (case x of None \<Rightarrow> ''None'' | Some i \<Rightarrow> str_int i)"

subsection \<open>The abbreviation table\<close>

text \<open>
  One row of \<open>building_abbreviations.csv\<close>. \<open>with_columns(concat_str("Building", ": ",
  "Address"))\<close> keeps the name of its first column: it overwrites \<open>Building\<close> with the
  building name, a colon and the address, null when either is null.
\<close>

record building =
  Abbreviation :: "string option"
  Building :: "string option"
  Address :: "string option"

fun concat_str :: "string option list \<Rightarrow> string option" where
  "concat_str [] = Some []"
| "concat_str (x # xs) =
     (case x of
        None \<Rightarrow> None
      | Some t \<Rightarrow> (case concat_str xs of None \<Rightarrow> None | Some u \<Rightarrow> Some (t @ u)))"

definition with_address :: "building \<Rightarrow> building" where
  "with_address b = b\<lparr>Building := concat_str [Building b, Some '': '', Address b]\<rparr>"

text \<open>
  \<open>sort(len_chars(Abbreviation), descending=True)\<close>: longest code first, a null code before
  all others. polars does not fix the order of codes of equal length; the model keeps
  them in table order.
\<close>

definition len_chars :: "building \<Rightarrow> nat option" where
  "len_chars b = map_option length (Abbreviation b)"

fun not_after :: "nat option \<Rightarrow> nat option \<Rightarrow> bool" where
  "not_after None y = True"
| "not_after (Some m) None = False"
| "not_after (Some m) (Some n) = (n \<le> m)"

fun insert_desc :: "building \<Rightarrow> building list \<Rightarrow> building list" where
  "insert_desc a [] = [a]"
| "insert_desc a (b # bs) =
     (if not_after (len_chars a) (len_chars b) then a # b # bs else b # insert_desc a bs)"

definition sort_desc :: "building list \<Rightarrow> building list" where
  "sort_desc bs = foldr insert_desc bs []"

definition abbreviations :: "building list \<Rightarrow> building list" where
  "abbreviations csv = sort_desc (map with_address csv)"

subsection \<open>One event per row\<close>

record event =
  uid :: string
  summary :: string
  description :: string
  location :: string
  dtstart :: int
  dtend :: int

text \<open>The inner loop: every row of the table is applied, in order, to the text so far.\<close>

fun substitute :: "building list \<Rightarrow> string \<Rightarrow> error + string" where
  "substitute [] b = Inr b"
| "substitute (a # as) b =
     (case Abbreviation a of
        None \<Rightarrow> Inl TypeError
      | Some old \<Rightarrow>
          (case Building a of
             None \<Rightarrow> Inl TypeError
           | Some new \<Rightarrow> substitute as (replace old new b)))"

definition newline :: string where
  "newline = [CHR 0x0A]"

definition describe :: "sched_row \<Rightarrow> string \<Rightarrow> string" where
  "describe row bld =
     (if Subject (fst row) \<noteq> Some ''Make-up Exam''
      then fmt (Subject (fst row)) @ '' '' @ fmt (Course (fst row)) @ ''-'' @ fmt (Section (fst row))
           @ '' for '' @ fmt (Instructor (fst row)) @ '', '' @ fmt_int (Students_enrolled (fst row))
           @ '' students'' @ newline @ ''Proctors: '' @ join '', '' (snd row)
           @ newline @ ''Building: '' @ bld
      else ''Make-up exam'' @ newline @ ''Proctors: '' @ join '', '' (snd row))"

text \<open>
  The body of the loop over the schedule. \<open>None.split\<close> raises; \<open>str.replace\<close> raises on a
  null code or name; icalendar raises when \<open>dtstart\<close> or \<open>dtend\<close> is given \<open>None\<close>.
\<close>

definition create_event :: "building list \<Rightarrow> string \<Rightarrow> sched_row \<Rightarrow> error + event" where
  "create_event abbrs new_uid row =
     (case Location (fst row) of
        None \<Rightarrow> Inl AttributeError
      | Some loc \<Rightarrow>
          (case substitute abbrs (split_first loc) of
             Inl e \<Rightarrow> Inl e
           | Inr bld \<Rightarrow>
               (case Start_time (fst row) of
                  None \<Rightarrow> Inl ValueError
                | Some st \<Rightarrow>
                    (case End_time (fst row) of
                       None \<Rightarrow> Inl ValueError
                     | Some en \<Rightarrow>
                         Inr \<lparr> uid = new_uid, summary = ''Proctoring'',
                               description = describe row bld, location = loc,
                               dtstart = st, dtend = en \<rparr>))))"

text \<open>\<open>uuid4\<close> is drawn once per row: \<open>uids i\<close> is the value it returns for row \<open>i\<close>.\<close>

fun events_from :: "building list \<Rightarrow> (nat \<Rightarrow> string) \<Rightarrow> nat \<Rightarrow> sched_row list \<Rightarrow> error + event list" where
  "events_from abbrs uids i [] = Inr []"
| "events_from abbrs uids i (row # rows) =
     (case create_event abbrs (uids i) row of
        Inl e \<Rightarrow> Inl e
      | Inr ev \<Rightarrow>
          (case events_from abbrs uids (Suc i) rows of
             Inl e \<Rightarrow> Inl e
           | Inr evs \<Rightarrow> Inr (ev # evs)))"

definition create_events :: "building list \<Rightarrow> (nat \<Rightarrow> string) \<Rightarrow> sched_row list \<Rightarrow> error + event list" where
  "create_events csv uids sched = events_from (abbreviations csv) uids 0 sched"

section \<open>\<open>check_for_double_bookings\<close>\<close>

text \<open>
  The schedule carries its events in a further column \<open>Event\<close>: a row is the non-Proctor
  columns, the list of proctors and the event. \<open>explode("Proctor")\<close> gives one row per
  element of the list, and one row with a null \<open>Proctor\<close> for an empty list.
\<close>

type_synonym 'e event_row = "cols \<times> string list \<times> 'e"
type_synonym 'e appointment = "cols \<times> string option \<times> 'e"

definition explode_row :: "'e event_row \<Rightarrow> 'e appointment list" where
  "explode_row row =
     (if fst (snd row) = [] then [(fst row, None, snd (snd row))]
      else map (\<lambda>p. (fst row, Some p, snd (snd row))) (fst (snd row)))"

definition explode :: "'e event_row list \<Rightarrow> 'e appointment list" where
  "explode sched = concat (map explode_row sched)"

text \<open>A comparison with a null on either side is null, and \<open>join_where\<close> keeps no such pair.\<close>

definition holds :: "('a \<Rightarrow> 'a \<Rightarrow> bool) \<Rightarrow> 'a option \<Rightarrow> 'a option \<Rightarrow> bool" where
  "holds R x y = (case x of None \<Rightarrow> False | Some a \<Rightarrow> (case y of None \<Rightarrow> False | Some b \<Rightarrow> R a b))"

definition double_booked :: "'e appointment \<Rightarrow> 'e appointment \<Rightarrow> bool" where
  "double_booked a b \<longleftrightarrow>
     holds (=) (fst (snd a)) (fst (snd b))
     \<and> holds (<) (Start_time (fst a)) (Start_time (fst b))
     \<and> holds (>) (End_time (fst a)) (Start_time (fst b))
     \<and> holds (\<noteq>) (Location (fst a)) (Location (fst b))"

definition join_where :: "'e appointment list \<Rightarrow> ('e appointment \<times> 'e appointment) list" where
  "join_where apps = concat (map (\<lambda>a. map (\<lambda>b. (a, b)) (filter (double_booked a) apps)) apps)"

definition double_bookings :: "'e event_row list \<Rightarrow> ('e appointment \<times> 'e appointment) list" where
  "double_bookings sched = join_where (explode sched)"

text \<open>
  What the program leaves behind: the records it logs and the calendar files it writes,
  each file with the events of its calendar. The period in a file name is the least
  \<open>Date\<close> of the schedule (the name shows its year and month).
\<close>

datatype log_record =
    Double_booked "string option" "int option" "string option" "string option" int int
      "string option" "string option" int int
  | Created "int option"

datatype ics_path =
    Interim_ics "int option"
  | Processed_ics "int option" string

record world =
  Log :: "log_record list"
  Files :: "(ics_path \<times> event list) list"

text \<open>A step that raises leaves the error and the world as it is at that moment.\<close>

type_synonym failure = "error \<times> world"

text \<open>
  The warning for one pair: proctor, date, then course, section, start and end of each
  side. The start and end are rendered with \<open>.time()\<close>, which raises on \<open>None\<close>.
\<close>

definition warning :: "'e appointment \<times> 'e appointment \<Rightarrow> error + log_record" where
  "warning pair =
     (case Start_time (fst (fst pair)) of None \<Rightarrow> Inl AttributeError | Some st \<Rightarrow>
      (case End_time (fst (fst pair)) of None \<Rightarrow> Inl AttributeError | Some en \<Rightarrow>
       (case Start_time (fst (snd pair)) of None \<Rightarrow> Inl AttributeError | Some st_right \<Rightarrow>
        (case End_time (fst (snd pair)) of None \<Rightarrow> Inl AttributeError | Some en_right \<Rightarrow>
           Inr (Double_booked (fst (snd (fst pair))) (Date (fst (fst pair)))
                  (Course (fst (fst pair))) (Section (fst (fst pair))) st en
                  (Course (fst (snd pair))) (Section (fst (snd pair))) st_right en_right)))))"

text \<open>The loop over the joined rows: one warning is logged after the other.\<close>

fun log_warnings :: "('e appointment \<times> 'e appointment) list \<Rightarrow> world \<Rightarrow> failure + world" where
  "log_warnings [] w = Inr w"
| "log_warnings (pair # pairs) w =
     (case warning pair of
        Inl e \<Rightarrow> Inl (e, w)
      | Inr msg \<Rightarrow> log_warnings pairs (w\<lparr>Log := Log w @ [msg]\<rparr>))"

definition check_for_double_bookings :: "'e event_row list \<Rightarrow> world \<Rightarrow> failure + world" where
  "check_for_double_bookings sched w = log_warnings (double_bookings sched) w"


section \<open>\<open>main\<close>\<close>

text \<open>
  \<open>Start time - pl.duration(minutes=start_offset_mins)\<close>. polars counts the duration in
  microseconds in 64 bits, so that a large number of minutes wraps around, and subtracts
  in microseconds, again in 64 bits. The model keeps instants in milliseconds: the part of
  the result below a millisecond, which only a wrapped value has, is dropped.
\<close>

definition wrap64 :: "int \<Rightarrow> int" where
  "wrap64 x = (x + 2 ^ 63) mod 2 ^ 64 - 2 ^ 63"

definition duration_us :: "int \<Rightarrow> int" where
  "duration_us minutes = wrap64 (minutes * 60000000)"

definition minus_offset :: "int \<Rightarrow> sched_row \<Rightarrow> sched_row" where
  "minus_offset start_offset_mins row =
     ((fst row)\<lparr>Start_time :=
         map_option (\<lambda>t. wrap64 (t * 1000 - duration_us start_offset_mins) div 1000)
           (Start_time (fst row))\<rparr>,
      snd row)"

definition with_events :: "sched_row list \<Rightarrow> event list \<Rightarrow> event event_row list" where
  "with_events df evs = map (\<lambda>(row, ev). (fst row, snd row, ev)) (zip df evs)"

text \<open>\<open>min\<close> skips nulls and is null when there is no value.\<close>

fun min_date :: "int option list \<Rightarrow> int option" where
  "min_date [] = None"
| "min_date (d # ds) =
     (case d of
        None \<Rightarrow> min_date ds
      | Some x \<Rightarrow> (case min_date ds of None \<Rightarrow> Some x | Some y \<Rightarrow> Some (min x y)))"

definition schedule_period :: "'e event_row list \<Rightarrow> int option" where
  "schedule_period sched = min_date (map (\<lambda>row. Date (fst row)) sched)"

text \<open>
  \<open>group_by("Proctor")\<close> on the exploded schedule: one group per distinct proctor, holding
  that proctor's rows in schedule order. The order of the groups is not fixed by polars.
\<close>

definition group_by_Proctor :: "'e appointment list \<Rightarrow> (string option \<times> 'e appointment list) list" where
  "group_by_Proctor apps =
     map (\<lambda>p. (p, filter (\<lambda>a. fst (snd a) = p) apps)) (remdups (map (\<lambda>a. fst (snd a)) apps))"

text \<open>
  \<open>with path.open("wb") as f: f.write(cal.to_ical())\<close>. Whether the file can be opened and
  written is up to the file system: \<open>fs path\<close> says so. It is false, for one, for the
  calendar of a proctor whose name holds a \<open>/\<close>, when the directory that name asks for is
  not there. A write that fails leaves no file and ends the run.
\<close>

definition write_ics :: "(ics_path \<Rightarrow> bool) \<Rightarrow> ics_path \<Rightarrow> event list \<Rightarrow> world \<Rightarrow> failure + world" where
  "write_ics fs path cal w =
     (if fs path then Inr (w\<lparr>Files := Files w @ [(path, cal)]\<rparr>) else Inl (OSError, w))"

definition write_proctor ::
  "(ics_path \<Rightarrow> bool) \<Rightarrow> int option \<Rightarrow> string option \<times> event appointment list \<Rightarrow> world \<Rightarrow> failure + world" where
  "write_proctor fs period grp w =
     write_ics fs (Processed_ics period (fmt (fst grp))) (map (\<lambda>a. snd (snd a)) (snd grp)) w"

text \<open>The loop over the groups: one calendar after the other, until a write fails.\<close>

fun write_proctors ::
  "(ics_path \<Rightarrow> bool) \<Rightarrow> int option \<Rightarrow> (string option \<times> event appointment list) list \<Rightarrow> world
     \<Rightarrow> failure + world" where
  "write_proctors fs period [] w = Inr w"
| "write_proctors fs period (grp # grps) w =
     (case write_proctor fs period grp w of
        Inl f \<Rightarrow> Inl f
      | Inr w' \<Rightarrow> write_proctors fs period grps w')"

definition write_calendars :: "(ics_path \<Rightarrow> bool) \<Rightarrow> event event_row list \<Rightarrow> world \<Rightarrow> failure + world" where
  "write_calendars fs sched w =
     (case write_ics fs (Interim_ics (schedule_period sched)) (map (\<lambda>row. snd (snd row)) sched) w of
        Inl f \<Rightarrow> Inl f
      | Inr w1 \<Rightarrow> write_proctors fs (schedule_period sched) (group_by_Proctor (explode sched)) w1)"

definition main ::
  "(int \<Rightarrow> int option) \<Rightarrow> (ics_path \<Rightarrow> bool) \<Rightarrow> building list \<Rightarrow> (nat \<Rightarrow> string) \<Rightarrow> sheet \<Rightarrow> int \<Rightarrow> world
     \<Rightarrow> failure + world" where
  "main tz fs csv uids schedule_file start_offset_mins w =
     (case clean_proctor_schedule tz schedule_file of
        Inl e \<Rightarrow> Inl (e, w)
      | Inr cleaned \<Rightarrow>
          (let df = map (minus_offset start_offset_mins) cleaned in
           case create_events csv uids df of
             Inl e \<Rightarrow> Inl (e, w)
           | Inr evs \<Rightarrow>
               (let sched = with_events df evs in
                case check_for_double_bookings sched w of
                  Inl f \<Rightarrow> Inl f
                | Inr w1 \<Rightarrow>
                    (case write_calendars fs sched w1 of
                       Inl f \<Rightarrow> Inl f
                     | Inr w2 \<Rightarrow> Inr (w2\<lparr>Log := Log w2 @ [Created (schedule_period sched)]\<rparr>)))))"


section \<open>Auxiliary notions and example inputs\<close>



text \<open>The non-Proctor columns by name, and whether a row is null in one.\<close>

datatype column = Date_col | Start_time_col | End_time_col | Location_col | Subject_col
  | Course_col | Section_col | Instructor_col | Students_enrolled_col

fun is_null :: "column \<Rightarrow> cols \<Rightarrow> bool" where
  "is_null Date_col k = (Date k = None)"
| "is_null Start_time_col k = (Start_time k = None)"
| "is_null End_time_col k = (End_time k = None)"
| "is_null Location_col k = (Location k = None)"
| "is_null Subject_col k = (Subject k = None)"
| "is_null Course_col k = (Course k = None)"
| "is_null Section_col k = (Section k = None)"
| "is_null Instructor_col k = (Instructor k = None)"
| "is_null Students_enrolled_col k = (Students_enrolled k = None)"

text \<open>
  A small sheet: an exam with two Proctor columns, a continuation row that leaves the shared
  cells blank, a blank template row, and a make-up exam; the times carry the placeholder
  date of the spreadsheet. With it an abbreviation table and a supply of uids.
\<close>

definition blank_row :: cols where
  "blank_row = \<lparr> Date = None, Start_time = None, End_time = None, Location = None, Subject = None,
       Course = None, Section = None, Instructor = None, Students_enrolled = None \<rparr>"

definition exam :: cols where
  "exam = \<lparr> Date = Some 19905, Start_time = Some (- 2209125600000), End_time = Some (- 2209118400000),
       Location = Some ''SC-100'', Subject = Some ''Calculus'', Course = Some ''1000'',
       Section = Some ''001'', Instructor = Some ''Lee'', Students_enrolled = Some 40 \<rparr>"

definition makeup :: cols where
  "makeup = \<lparr> Date = Some 19905, Start_time = Some (- 2209122000000), End_time = Some (- 2209114800000),
       Location = Some ''TH-2'', Subject = Some ''Make-up Exam'', Course = None,
       Section = None, Instructor = None, Students_enrolled = None \<rparr>"

definition example_sheet :: sheet where
  "example_sheet =
     \<lparr> Index_rows = [exam, blank_row, blank_row, makeup],
       Proctor_columns = [[Some ''Ann'', Some ''Cy'', None, Some ''Ann''], [Some ''Bob'', None, None, None]] \<rparr>"



text \<open>Two rows, two Proctor columns; the first row lacks its date.\<close>

definition sheet_date_missing :: sheet where
  "sheet_date_missing =
     \<lparr> Index_rows = [exam\<lparr>Date := None\<rparr>, makeup],
       Proctor_columns = [[Some ''Ann'', Some ''Bob''], [Some ''Cy'', None]] \<rparr>"

definition example_csv :: "building list" where
  "example_csv =
     [\<lparr> Abbreviation = Some ''S'', Building = Some ''Sx'', Address = Some ''1 A St'' \<rparr>,
      \<lparr> Abbreviation = Some ''SC'', Building = Some ''Science Centre'', Address = Some ''2 B St'' \<rparr>]"

definition example_uids :: "nat \<Rightarrow> string" where
  "example_uids i = ''uid-'' @ str_nat i"

definition empty_world :: world where
  "empty_world = \<lparr> Log = [], Files = [] \<rparr>"

text \<open>What \<open>clean_proctor_schedule\<close> makes of the sheet, read in a zone without offset.\<close>

definition cleaned_example :: "sched_row list" where
  "cleaned_example =
     [(makeup\<lparr>Start_time := Some 1719831600000, End_time := Some 1719838800000, Course := Some ''1000'',
          Section := Some ''001'', Instructor := Some ''Lee'', Students_enrolled := Some 40\<rparr>, [''Ann'']),
      (exam\<lparr>Start_time := Some 1719828000000, End_time := Some 1719835200000\<rparr>, [''Ann'', ''Cy'', ''Bob''])]"

text \<open>
  One proctor in two rooms, 10:00 to 11:00 and 10:30 to 11:30 on one day; and the same
  hours in one room.
\<close>

definition slot_X :: cols where
  "slot_X = blank_row\<lparr>Date := Some 19905, Start_time := Some 1719828000000, End_time := Some 1719831600000,
     Location := Some ''X''\<rparr>"

definition slot_Y :: cols where
  "slot_Y = blank_row\<lparr>Date := Some 19905, Start_time := Some 1719829800000, End_time := Some 1719833400000,
     Location := Some ''Y''\<rparr>"

definition slot_X_later :: cols where
  "slot_X_later = slot_Y\<lparr>Location := Some ''X''\<rparr>"

definition two_locations :: "unit event_row list" where
  "two_locations = [(slot_X, [''A''], ()), (slot_Y, [''A''], ())]"

definition same_location :: "unit event_row list" where
  "same_location = [(slot_X, [''A''], ()), (slot_X_later, [''A''], ())]"

text \<open>The per-proctor files \<open>write_calendars\<close> writes, in the order it writes them.\<close>

definition proctor_files :: "event event_row list \<Rightarrow> (ics_path \<times> event list) list" where
  "proctor_files sched =
     map (\<lambda>g. (Processed_ics (schedule_period sched) (fmt (fst g)), map (\<lambda>a. snd (snd a)) (snd g)))
       (group_by_Proctor (explode sched))"

text \<open>
  The events, the schedule and the outcome of \<open>main\<close> for the small sheet, with a start
  offset of 30 minutes.
\<close>

definition example_events :: "event list" where
  "example_events =
     [\<lparr> uid = ''uid-0'', summary = ''Proctoring'',
        description = ''Make-up exam'' @ [CHR 0x0A] @ ''Proctors: Ann'',
        location = ''TH-2'', dtstart = 1719829800000, dtend = 1719838800000 \<rparr>,
      \<lparr> uid = ''uid-1'', summary = ''Proctoring'',
        description = ''Calculus 1000-001 for Lee, 40 students'' @ [CHR 0x0A] @ ''Proctors: Ann, Cy, Bob''
          @ [CHR 0x0A] @ ''Building: Sx: 1 A Stcience Centre: 2 B Sx: 1 A Stt'',
        location = ''SC-100'', dtstart = 1719826200000, dtend = 1719835200000 \<rparr>]"

definition example_world :: world where
  "example_world =
     \<lparr> Log = [Double_booked (Some ''Ann'') (Some 19905) (Some ''1000'') (Some ''001'') 1719826200000 1719835200000
                (Some ''1000'') (Some ''001'') 1719829800000 1719838800000,
              Created (Some 19905)],
       Files = [(Interim_ics (Some 19905), example_events),
                (Processed_ics (Some 19905) ''Ann'', example_events),
                (Processed_ics (Some 19905) ''Cy'', [example_events ! 1]),
                (Processed_ics (Some 19905) ''Bob'', [example_events ! 1])] \<rparr>"

definition example_sched :: "event event_row list" where
  "example_sched =
     [(makeup\<lparr>Start_time := Some 1719829800000, End_time := Some 1719838800000, Course := Some ''1000'',
          Section := Some ''001'', Instructor := Some ''Lee'', Students_enrolled := Some 40\<rparr>, [''Ann''],
       example_events ! 0),
      (exam\<lparr>Start_time := Some 1719826200000, End_time := Some 1719835200000\<rparr>, [''Ann'', ''Cy'', ''Bob''],
       example_events ! 1)]"



section \<open>Forward fill\<close>

lemma coalesce_idem [simp]: "coalesce (coalesce x y) y = coalesce x y"
  by (cases x; cases y) (simp_all add: coalesce_def)

lemma coalesce_self [simp]: "coalesce x x = x"
  by (cases x) (simp_all add: coalesce_def)

lemma fill_from_idem [simp]: "fill_from prev (fill_from prev k) = fill_from prev k"
  by (simp add: fill_from_def)

lemma fill_from_self [simp]: "fill_from k k = k"
  by (simp add: fill_from_def)

lemma fill_after_idem: "fill_after prev (fill_after prev rs) = fill_after prev rs"
proof (induction rs arbitrary: prev)
  case Nil
  show ?case by simp
next
  case (Cons r rs)
  obtain k p where r: "r = (k, p)" by (cases r)
  have "fill_after (fill_from prev k) (fill_after (fill_from prev k) rs)
          = fill_after (fill_from prev k) rs"
    by (rule Cons.IH)
  then show ?case by (simp add: r)
qed

text \<open>The row-by-row fill is the forward fill of every column on its own.\<close>

lemma fill_after_column:
  assumes "\<And>prev k. f (fill_from prev k) = coalesce (f k) (f prev)"
  shows "map (\<lambda>r. f (fst r)) (fill_after prev rs) = forward_fill_column (f prev) (map (\<lambda>r. f (fst r)) rs)"
proof (induction rs arbitrary: prev)
  case Nil
  show ?case by simp
next
  case (Cons r rs)
  obtain k p where r: "r = (k, p)" by (cases r)
  from Cons.IH [of "fill_from prev k"] show ?case
    by (simp add: r assms)
qed

lemma coalesce_None_right [simp]: "coalesce x None = x"
  by (cases x) (simp_all add: coalesce_def)

lemma fill_null_forward_column:
  assumes "\<And>prev k. f (fill_from prev k) = coalesce (f k) (f prev)"
  shows "map (\<lambda>r. f (fst r)) (fill_null_forward rs) = forward_fill_column None (map (\<lambda>r. f (fst r)) rs)"
proof (cases rs)
  case Nil
  then show ?thesis by simp
next
  case (Cons r rs')
  obtain k p where r: "r = (k, p)" by (cases r)
  show ?thesis
    unfolding Cons r using fill_after_column [of f k rs', OF assms]
    by simp
qed

lemma fill_null_forward_by_column:
  "map (\<lambda>r. Date (fst r)) (fill_null_forward rs) = forward_fill_column None (map (\<lambda>r. Date (fst r)) rs)"
  "map (\<lambda>r. Start_time (fst r)) (fill_null_forward rs) = forward_fill_column None (map (\<lambda>r. Start_time (fst r)) rs)"
  "map (\<lambda>r. End_time (fst r)) (fill_null_forward rs) = forward_fill_column None (map (\<lambda>r. End_time (fst r)) rs)"
  "map (\<lambda>r. Location (fst r)) (fill_null_forward rs) = forward_fill_column None (map (\<lambda>r. Location (fst r)) rs)"
  "map (\<lambda>r. Subject (fst r)) (fill_null_forward rs) = forward_fill_column None (map (\<lambda>r. Subject (fst r)) rs)"
  "map (\<lambda>r. Course (fst r)) (fill_null_forward rs) = forward_fill_column None (map (\<lambda>r. Course (fst r)) rs)"
  "map (\<lambda>r. Section (fst r)) (fill_null_forward rs) = forward_fill_column None (map (\<lambda>r. Section (fst r)) rs)"
  "map (\<lambda>r. Instructor (fst r)) (fill_null_forward rs) = forward_fill_column None (map (\<lambda>r. Instructor (fst r)) rs)"
  "map (\<lambda>r. Students_enrolled (fst r)) (fill_null_forward rs)
     = forward_fill_column None (map (\<lambda>r. Students_enrolled (fst r)) rs)"
  by (rule fill_null_forward_column, simp add: fill_from_def)+

text \<open>
  C8. Forward fill is idempotent: filling a long table twice gives the same table as
  filling it once. This holds for every table, hence for the unpivoted table of every sheet.
\<close>

theorem fill_null_forward_idempotent:
  "fill_null_forward (fill_null_forward rs) = fill_null_forward rs"
proof (cases rs)
  case Nil
  then show ?thesis by simp
next
  case (Cons r rs')
  obtain k p where r: "r = (k, p)" by (cases r)
  show ?thesis by (simp add: Cons r fill_after_idem)
qed


lemma coalesce_None: "coalesce x y = None \<longleftrightarrow> x = None \<and> y = None"
  by (cases x) (simp_all add: coalesce_def)

lemma is_null_fill_from: "is_null c (fill_from prev k) \<longleftrightarrow> is_null c k \<and> is_null c prev"
  by (cases c) (simp_all add: fill_from_def coalesce_None)

lemma all_le_Suc: "(\<forall>m\<le>Suc n. P m) \<longleftrightarrow> P 0 \<and> (\<forall>m\<le>n. P (Suc m))"
proof
  assume "\<forall>m\<le>Suc n. P m"
  then show "P 0 \<and> (\<forall>m\<le>n. P (Suc m))" by simp
next
  assume h: "P 0 \<and> (\<forall>m\<le>n. P (Suc m))"
  show "\<forall>m\<le>Suc n. P m"
  proof (intro allI impI)
    fix m assume "m \<le> Suc n"
    with h show "P m" by (cases m) simp_all
  qed
qed

lemma is_null_fill_after:
  "n < length rs \<Longrightarrow>
     is_null c (fst (fill_after prev rs ! n)) \<longleftrightarrow> is_null c prev \<and> (\<forall>m\<le>n. is_null c (fst (rs ! m)))"
proof (induction rs arbitrary: prev n)
  case Nil
  then show ?case by simp
next
  case (Cons r rs)
  obtain k p where r: "r = (k, p)" by (cases r)
  show ?case
  proof (cases n)
    case 0
    then show ?thesis by (auto simp: r is_null_fill_from)
  next
    case (Suc n')
    with Cons.prems have "n' < length rs" by simp
    from Cons.IH [OF this, of "fill_from prev k"] show ?thesis
      by (auto simp: Suc r is_null_fill_from all_le_Suc)
  qed
qed

lemma is_null_fill_null_forward:
  assumes "n < length rs"
  shows "is_null c (fst (fill_null_forward rs ! n)) \<longleftrightarrow> (\<forall>m\<le>n. is_null c (fst (rs ! m)))"
proof (cases rs)
  case Nil
  with assms show ?thesis by simp
next
  case (Cons r rs')
  obtain k p where r: "r = (k, p)" by (cases r)
  show ?thesis
  proof (cases n)
    case 0
    then show ?thesis by (simp add: Cons r)
  next
    case (Suc n')
    with assms Cons have "n' < length rs'" by simp
    from is_null_fill_after [OF this, of c k] show ?thesis
      by (simp add: Cons Suc r all_le_Suc)
  qed
qed

lemma fill_null_forward_first: "rs \<noteq> [] \<Longrightarrow> fill_null_forward rs ! 0 = rs ! 0"
  by (cases rs) auto

lemma long_table_date_missing:
  "long_table sheet_date_missing = [(exam\<lparr>Date := None\<rparr>, ''Ann''), (makeup, ''Bob''), (exam\<lparr>Date := None\<rparr>, ''Cy'')]"
  by (simp add: long_table_def unpivot_def sheet_date_missing_def)

lemma filled_table_date_missing:
  "filled_table sheet_date_missing =
     [(exam\<lparr>Date := None\<rparr>, ''Ann''),
      (makeup\<lparr>Course := Some ''1000'', Section := Some ''001'', Instructor := Some ''Lee'',
          Students_enrolled := Some 40\<rparr>, ''Bob''),
      (exam, ''Cy'')]"
  by (simp add: filled_table_def long_table_date_missing fill_from_def coalesce_def exam_def makeup_def)

text \<open>
  C4 as stated fails. The first sheet row has no date and a proctor in both Proctor
  columns. Its copy for the second Proctor column stands, in the unpivoted table, below
  the second sheet row's copy for the first column, and takes its date from there.
\<close>

theorem first_sheet_row_refilled:
  "is_null Date_col (Index_rows sheet_date_missing ! 0)
   \<and> long_table sheet_date_missing ! 2 = (Index_rows sheet_date_missing ! 0, ''Cy'')
   \<and> \<not> is_null Date_col (fst (filled_table sheet_date_missing ! 2))
   \<and> Date (fst (filled_table sheet_date_missing ! 2)) = Some 19905"
  unfolding long_table_date_missing filled_table_date_missing
  by (simp add: sheet_date_missing_def exam_def)

text \<open>
  C4, amended. In a filled row a cell is null exactly when the cell is null in that row
  and in every row above it in the long table (Proctor column after Proctor column, null
  proctors dropped). So the first row of the long table keeps its nulls; that is the copy
  of the first sheet row when the first Proctor column holds a proctor there.
\<close>

theorem null_kept_iff_none_above:
  assumes "n < length (long_table s)"
  shows "(is_null c (fst (filled_table s ! n)) \<longleftrightarrow> (\<forall>m\<le>n. is_null c (fst (long_table s ! m))))
    \<and> filled_table s ! 0 = long_table s ! 0
    \<and> (\<forall>k ks p col cols. Index_rows s = k # ks \<and> Proctor_columns s = (Some p # col) # cols
          \<longrightarrow> filled_table s ! 0 = (k, p))"
proof -
  from assms have ne: "long_table s \<noteq> []" by auto
  have first: "filled_table s ! 0 = long_table s ! 0"
    using ne by (simp add: filled_table_def fill_null_forward_first)
  have "long_table s ! 0 = (k, p)"
    if "Index_rows s = k # ks" "Proctor_columns s = (Some p # col) # cols" for k ks p col cols
    using that by (simp add: long_table_def unpivot_def)
  with first is_null_fill_null_forward [OF assms, of c] show ?thesis
    by (simp add: filled_table_def)
qed

theorem null_kept_iff_none_above_witness:
  "is_null Date_col (fst (filled_table sheet_date_missing ! 0))
   \<and> filled_table sheet_date_missing ! 0 = (exam\<lparr>Date := None\<rparr>, ''Ann'')
   \<and> \<not> (\<forall>m\<le>2. is_null Date_col (fst (long_table sheet_date_missing ! m)))"
proof -
  have "(0::nat) < length (long_table sheet_date_missing)" "(2::nat) < length (long_table sheet_date_missing)"
    by (simp_all add: long_table_date_missing)
  from null_kept_iff_none_above [OF this(1), of Date_col] null_kept_iff_none_above [OF this(2), of Date_col]
  show ?thesis
    unfolding long_table_date_missing filled_table_date_missing by (simp add: exam_def)
qed


section \<open>The normalizer\<close>







lemma length_fill_after [simp]: "length (fill_after prev rs) = length rs"
  by (induction rs arbitrary: prev) auto


lemma map_snd_fill_after [simp]: "map snd (fill_after prev rs) = map snd rs"
  by (induction rs arbitrary: prev) auto






lemma length_group_by_agg: "length (group_by_agg rs) = length (remdups (map fst rs))"
  by (simp add: group_by_agg_def)



lemma snd_group_by_agg:
  "i < length (group_by_agg rs) \<Longrightarrow>
     snd (group_by_agg rs ! i) = remdups (map snd (filter (\<lambda>r. fst r = fst (group_by_agg rs ! i)) rs))"
  by (simp add: group_by_agg_def)

lemma group_by_agg_proctors:
  assumes "g \<in> set (group_by_agg rs)"
  shows "distinct (snd g) \<and> snd g \<noteq> [] \<and> set (snd g) = {p. (fst g, p) \<in> set rs}"
proof -
  obtain k where k: "k \<in> set (map fst rs)" and g: "g = (k, remdups (map snd (filter (\<lambda>r. fst r = k) rs)))"
    using assms by (auto simp: group_by_agg_def)
  from k obtain p where "(k, p) \<in> set rs" by auto
  then have "p \<in> set (snd g)" by (force simp: g)
  then have "snd g \<noteq> []" by auto
  moreover have "set (snd g) = {p. (fst g, p) \<in> set rs}" by (force simp: g)
  ultimately show ?thesis by (simp add: g)
qed


lemma each_row_Inr:
  "each_row f xs = Inr ys \<Longrightarrow> length ys = length xs \<and> (\<forall>i < length xs. f (xs ! i) = Inr (ys ! i))"
proof (induction xs arbitrary: ys)
  case Nil
  then show ?case by simp
next
  case (Cons x xs)
  from Cons.prems obtain y where y: "f x = Inr y"
    by (cases "f x") simp_all
  from Cons.prems y obtain ys' where ys': "each_row f xs = Inr ys'"
    by (cases "each_row f xs") simp_all
  from Cons.prems y ys' have ys: "ys = y # ys'" by simp
  from Cons.IH [OF ys'] y ys show ?case by (auto simp: nth_Cons split: nat.splits)
qed

lemma each_row_total:
  "(\<forall>x\<in>set xs. \<exists>y. f x = Inr y) \<Longrightarrow> \<exists>ys. each_row f xs = Inr ys"
proof (induction xs)
  case Nil
  show ?case by simp
next
  case (Cons x xs)
  from Cons.prems obtain y where "f x = Inr y" by auto
  moreover from Cons obtain ys where "each_row f xs = Inr ys" by auto
  ultimately show ?case by simp
qed

lemma with_times_Inr:
  "with_times tz r = Inr r' \<Longrightarrow> \<exists>st en. r' = ((fst r)\<lparr>Start_time := st, End_time := en\<rparr>, snd r)"
  unfolding with_times_def by (auto split: sum.splits)

text \<open>In a zone that places every wall-clock time, the normalizer returns a schedule.\<close>

lemma clean_proctor_schedule_returns:
  assumes "\<And>t. tz t \<noteq> None"
  shows "\<exists>ne. clean_proctor_schedule tz s = Inr ne"
  unfolding clean_proctor_schedule_def
proof (rule each_row_total, rule ballI)
  fix r :: sched_row
  have c: "\<exists>v. combine_in_zone tz d t = Inr v" for d t
  proof (cases d)
    case None
    then show ?thesis by (simp add: combine_in_zone_def)
  next
    case (Some day)
    show ?thesis
    proof (cases t)
      case None
      with Some show ?thesis by (simp add: combine_in_zone_def)
    next
      case (Some dt)
      from assms [of "dt_combine day (dt_time dt)"]
      obtain i where "tz (dt_combine day (dt_time dt)) = Some i" by auto
      with Some \<open>d = Some day\<close> show ?thesis by (simp add: combine_in_zone_def)
    qed
  qed
  from c [of "Date (fst r)" "Start_time (fst r)"]
  obtain st where st: "combine_in_zone tz (Date (fst r)) (Start_time (fst r)) = Inr st" by blast
  from c [of "Date (fst r)" "End_time (fst r)"]
  obtain en where en: "combine_in_zone tz (Date (fst r)) (End_time (fst r)) = Inr en" by blast
  show "\<exists>y. with_times tz r = Inr y"
    by (simp add: with_times_def st en)
qed










lemma long_table_example:
  "long_table example_sheet = [(exam, ''Ann''), (blank_row, ''Cy''), (makeup, ''Ann''), (exam, ''Bob'')]"
  by (simp add: long_table_def unpivot_def example_sheet_def)

lemma filled_table_example:
  "filled_table example_sheet =
     [(exam, ''Ann''), (exam, ''Cy''),
      (makeup\<lparr>Course := Some ''1000'', Section := Some ''001'', Instructor := Some ''Lee'',
          Students_enrolled := Some 40\<rparr>, ''Ann''),
      (exam, ''Bob'')]"
  by (simp add: filled_table_def long_table_example fill_from_def coalesce_def exam_def makeup_def blank_row_def)

lemma grouped_table_example:
  "grouped_table example_sheet =
     [(makeup\<lparr>Course := Some ''1000'', Section := Some ''001'', Instructor := Some ''Lee'',
          Students_enrolled := Some 40\<rparr>, [''Ann'']),
      (exam, [''Ann'', ''Cy'', ''Bob''])]"
  by (simp add: grouped_table_def filled_table_example group_by_agg_def exam_def makeup_def)

lemma clean_example: "clean_proctor_schedule Some example_sheet = Inr cleaned_example"
  by (simp add: clean_proctor_schedule_def grouped_table_example with_times_def combine_in_zone_def
      dt_combine_def dt_time_def ms_per_day_def cleaned_example_def exam_def makeup_def)


section \<open>The conflict detector\<close>

lemma set_join_where:
  "(a, b) \<in> set (join_where apps) \<longleftrightarrow> a \<in> set apps \<and> b \<in> set apps \<and> double_booked a b"
  by (auto simp: join_where_def)

lemma explode_two_locations: "explode two_locations = [(slot_X, Some ''A'', ()), (slot_Y, Some ''A'', ())]"
  by (simp add: explode_def explode_row_def two_locations_def)

lemma two_locations_bookings:
  "double_bookings two_locations = [((slot_X, Some ''A'', ()), (slot_Y, Some ''A'', ()))]"
  by (simp add: double_bookings_def join_where_def explode_two_locations double_booked_def holds_def
      slot_X_def slot_Y_def blank_row_def)

lemma same_location_bookings: "double_bookings same_location = []"
  by (simp add: double_bookings_def join_where_def explode_def explode_row_def double_booked_def holds_def
      same_location_def slot_X_def slot_Y_def slot_X_later_def blank_row_def)

lemma two_locations_check:
  "check_for_double_bookings two_locations w =
     Inr (w\<lparr>Log := Log w @ [Double_booked (Some ''A'') (Some 19905) None None 1719828000000 1719831600000
                                None None 1719829800000 1719833400000]\<rparr>)"
  by (simp add: check_for_double_bookings_def two_locations_bookings warning_def slot_X_def slot_Y_def
      blank_row_def)

lemma same_location_check: "check_for_double_bookings same_location w = Inr (w\<lparr>Log := Log w @ []\<rparr>)"
  by (simp add: check_for_double_bookings_def same_location_bookings)

text \<open>
  C1. For two appointments \<open>a\<close> and \<open>b\<close> of the exploded schedule with the same proctor,
  \<open>a\<close> is reported against \<open>b\<close> exactly when \<open>a\<close> starts before \<open>b\<close> starts, ends after \<open>b\<close>
  starts and is in another location. The test is one-sided: when \<open>a\<close> is reported against
  \<open>b\<close>, \<open>b\<close> is not reported against \<open>a\<close>. One proctor in rooms X (10:00 to 11:00) and Y
  (10:30 to 11:30) gives exactly one report and one warning; the same hours twice in room
  X give none.
\<close>

theorem double_bookings_rule:
  assumes "a \<in> set (explode sched)" and "b \<in> set (explode sched)"
    and "fst (snd a) = Some p" and "fst (snd b) = Some p"
    and "Start_time (fst a) = Some sa" and "End_time (fst a) = Some ea"
    and "Start_time (fst b) = Some sb"
    and "Location (fst a) = Some la" and "Location (fst b) = Some lb"
  shows "((a, b) \<in> set (double_bookings sched) \<longleftrightarrow> sa < sb \<and> ea > sb \<and> la \<noteq> lb)
    \<and> ((a, b) \<in> set (double_bookings sched) \<longrightarrow> (b, a) \<notin> set (double_bookings sched))
    \<and> (la = lb \<longrightarrow> (a, b) \<notin> set (double_bookings sched))
    \<and> length (double_bookings two_locations) = 1
    \<and> (\<exists>m. check_for_double_bookings two_locations w = Inr (w\<lparr>Log := Log w @ [m]\<rparr>))
    \<and> double_bookings same_location = []
    \<and> check_for_double_bookings same_location w = Inr (w\<lparr>Log := Log w @ []\<rparr>)"
proof -
  have rule: "(a, b) \<in> set (double_bookings sched) \<longleftrightarrow> sa < sb \<and> ea > sb \<and> la \<noteq> lb"
    using assms by (simp add: double_bookings_def set_join_where double_booked_def holds_def)
  have one_sided: "(b, a) \<notin> set (double_bookings sched)" if "(a, b) \<in> set (double_bookings sched)"
  proof -
    from that rule have "sa < sb" by simp
    then show ?thesis
      using assms by (auto simp: double_bookings_def set_join_where double_booked_def holds_def split: option.splits)
  qed
  have logged: "\<exists>m. check_for_double_bookings two_locations w = Inr (w\<lparr>Log := Log w @ [m]\<rparr>)"
    unfolding two_locations_check by blast
  show ?thesis
    using rule one_sided logged
    by (simp add: two_locations_bookings same_location_bookings same_location_check)
qed

theorem double_bookings_rule_witness:
  "length (double_bookings two_locations) = 1 \<and> double_bookings same_location = []
   \<and> ((slot_X, Some ''A'', ()), (slot_Y, Some ''A'', ())) \<in> set (double_bookings two_locations)
   \<and> ((slot_Y, Some ''A'', ()), (slot_X, Some ''A'', ())) \<notin> set (double_bookings two_locations)"
  using double_bookings_rule [of "(slot_X, Some ''A'', ())" two_locations "(slot_Y, Some ''A'', ())"
     "''A''" 1719828000000 1719831600000 1719829800000 "''X''" "''Y''"]
  by (simp add: explode_two_locations slot_X_def slot_Y_def blank_row_def)

section \<open>The event builder\<close>

subsection \<open>The abbreviation table, longest code first\<close>








lemma abbreviations_example:
  "abbreviations example_csv =
     [\<lparr> Abbreviation = Some ''SC'', Building = Some ''Science Centre: 2 B St'', Address = Some ''2 B St'' \<rparr>,
      \<lparr> Abbreviation = Some ''S'', Building = Some ''Sx: 1 A St'', Address = Some ''1 A St'' \<rparr>]"
  by (simp add: abbreviations_def sort_desc_def example_csv_def with_address_def len_chars_def)


lemma substitute_SC:
  "substitute (abbreviations example_csv) ''SC'' = Inr ''Sx: 1 A Stcience Centre: 2 B Sx: 1 A Stt''"
  by (simp add: abbreviations_example)


subsection \<open>One event per row\<close>

lemma events_from_Inr:
  "events_from abbrs uids i rows = Inr evs \<Longrightarrow>
     length evs = length rows \<and> (\<forall>n<length rows. create_event abbrs (uids (i + n)) (rows ! n) = Inr (evs ! n))"
proof (induction rows arbitrary: i evs)
  case Nil
  then show ?case by simp
next
  case (Cons row rows)
  from Cons.prems obtain ev where ev: "create_event abbrs (uids i) row = Inr ev"
    by (cases "create_event abbrs (uids i) row") simp_all
  from Cons.prems ev obtain evs' where evs': "events_from abbrs uids (Suc i) rows = Inr evs'"
    by (cases "events_from abbrs uids (Suc i) rows") simp_all
  from Cons.prems ev evs' have evs: "evs = ev # evs'" by simp
  from Cons.IH [OF evs'] ev evs show ?case
    by (auto simp: nth_Cons split: nat.splits)
qed

lemma create_event_Inr:
  assumes "create_event abbrs u row = Inr ev"
  shows "\<exists>loc bld st en. Location (fst row) = Some loc \<and> substitute abbrs (split_first loc) = Inr bld
           \<and> Start_time (fst row) = Some st \<and> End_time (fst row) = Some en
           \<and> ev = \<lparr> uid = u, summary = ''Proctoring'', description = describe row bld, location = loc,
                     dtstart = st, dtend = en \<rparr>"
  using assms unfolding create_event_def
  by (auto split: option.splits sum.splits)

lemma create_events_Inr:
  assumes "create_events csv uids sched = Inr evs" and "n < length sched"
  shows "length evs = length sched
    \<and> (\<exists>loc bld st en. Location (fst (sched ! n)) = Some loc
          \<and> substitute (abbreviations csv) (split_first loc) = Inr bld
          \<and> Start_time (fst (sched ! n)) = Some st \<and> End_time (fst (sched ! n)) = Some en
          \<and> evs ! n = \<lparr> uid = uids n, summary = ''Proctoring'', description = describe (sched ! n) bld,
                         location = loc, dtstart = st, dtend = en \<rparr>)"
proof -
  from assms(1) have run: "events_from (abbreviations csv) uids 0 sched = Inr evs"
    by (simp add: create_events_def)
  from events_from_Inr [OF run] assms(2)
  have "length evs = length sched"
    and "create_event (abbreviations csv) (uids n) (sched ! n) = Inr (evs ! n)"
    by simp_all
  with create_event_Inr show ?thesis by blast
qed

lemma create_events_length: "create_events csv uids sched = Inr evs \<Longrightarrow> length evs = length sched"
  using events_from_Inr [of "abbreviations csv" uids 0 sched evs] by (simp add: create_events_def)

lemma offset_example:
  "map (minus_offset 30) cleaned_example =
     [(makeup\<lparr>Start_time := Some 1719829800000, End_time := Some 1719838800000, Course := Some ''1000'',
          Section := Some ''001'', Instructor := Some ''Lee'', Students_enrolled := Some 40\<rparr>, [''Ann'']),
      (exam\<lparr>Start_time := Some 1719826200000, End_time := Some 1719835200000\<rparr>, [''Ann'', ''Cy'', ''Bob''])]"
  by (simp add: cleaned_example_def minus_offset_def duration_us_def wrap64_def)

lemma substitute_TH: "substitute (abbreviations example_csv) ''TH'' = Inr ''TH''"
  by (simp add: abbreviations_example)

lemma events_example:
  "create_events example_csv example_uids (map (minus_offset 30) cleaned_example) = Inr example_events"
  unfolding offset_example create_events_def
  by (simp add: create_event_def split_first_def substitute_SC substitute_TH describe_def
      example_uids_def example_events_def exam_def makeup_def fmt_def fmt_int_def str_int_def newline_def)




text \<open>
  C6. When \<open>create_events\<close> returns, the description of the event of a row whose Subject is
  \<open>Make-up Exam\<close> is the fixed text and the proctor list, and nothing else of the row or of
  the abbreviation table; for any other Subject (also a null one) it is the full template
  with Subject, Course, Section, Instructor, enrollment, proctors and the substituted
  building text.
\<close>

theorem make_up_exam_description:
  assumes "create_events csv uids sched = Inr evs" and "n < length sched"
  shows "(Subject (fst (sched ! n)) = Some ''Make-up Exam'' \<longrightarrow>
            description (evs ! n) = ''Make-up exam'' @ [CHR 0x0A] @ ''Proctors: '' @ join '', '' (snd (sched ! n)))
    \<and> (Subject (fst (sched ! n)) \<noteq> Some ''Make-up Exam'' \<longrightarrow>
          (\<exists>loc bld. Location (fst (sched ! n)) = Some loc
             \<and> substitute (abbreviations csv) (split_first loc) = Inr bld
             \<and> description (evs ! n) =
                 fmt (Subject (fst (sched ! n))) @ '' '' @ fmt (Course (fst (sched ! n))) @ ''-''
                 @ fmt (Section (fst (sched ! n))) @ '' for '' @ fmt (Instructor (fst (sched ! n)))
                 @ '', '' @ fmt_int (Students_enrolled (fst (sched ! n))) @ '' students'' @ [CHR 0x0A]
                 @ ''Proctors: '' @ join '', '' (snd (sched ! n)) @ [CHR 0x0A] @ ''Building: '' @ bld))"
proof -
  from create_events_Inr [OF assms]
  obtain loc bld where "Location (fst (sched ! n)) = Some loc"
    and "substitute (abbreviations csv) (split_first loc) = Inr bld"
    and "description (evs ! n) = describe (sched ! n) bld"
    by auto
  then show ?thesis
    by (auto simp: describe_def newline_def)
qed

theorem make_up_exam_description_witness:
  "description (example_events ! 0) = ''Make-up exam'' @ [CHR 0x0A] @ ''Proctors: Ann''
   \<and> (\<exists>bld. substitute (abbreviations example_csv) (split_first ''SC-100'') = Inr bld
         \<and> description (example_events ! 1)
             = ''Calculus 1000-001 for Lee, 40 students'' @ [CHR 0x0A] @ ''Proctors: Ann, Cy, Bob''
               @ [CHR 0x0A] @ ''Building: '' @ bld)"
proof -
  have n: "(0::nat) < length (map (minus_offset 30) cleaned_example)"
    "(1::nat) < length (map (minus_offset 30) cleaned_example)"
    by (simp_all add: cleaned_example_def)
  from make_up_exam_description [OF events_example n(1)]
  have a: "description (example_events ! 0) = ''Make-up exam'' @ [CHR 0x0A] @ ''Proctors: Ann''"
    unfolding offset_example by (simp add: makeup_def)
  from make_up_exam_description [OF events_example n(2)]
  have b: "\<exists>bld. substitute (abbreviations example_csv) (split_first ''SC-100'') = Inr bld
         \<and> description (example_events ! 1)
             = ''Calculus 1000-001 for Lee, 40 students'' @ [CHR 0x0A] @ ''Proctors: Ann, Cy, Bob''
               @ [CHR 0x0A] @ ''Building: '' @ bld"
    unfolding offset_example by (simp add: exam_def fmt_def fmt_int_def str_int_def)
  from a b show ?thesis by blast
qed

text \<open>
  C9. The location of the event of a row is the Location cell of the row as it stands: it
  is the same whatever the abbreviation table is.
\<close>

theorem location_unsubstituted:
  assumes "create_events csv uids sched = Inr evs" and "n < length sched"
  shows "n < length evs \<and> Location (fst (sched ! n)) = Some (location (evs ! n))
    \<and> (\<forall>csv' uids' evs'. create_events csv' uids' sched = Inr evs' \<longrightarrow> location (evs' ! n) = location (evs ! n))"
proof -
  from create_events_Inr [OF assms]
  have len: "length evs = length sched" and loc: "Location (fst (sched ! n)) = Some (location (evs ! n))"
    by auto
  have "location (evs' ! n) = location (evs ! n)" if "create_events csv' uids' sched = Inr evs'" for csv' uids' evs'
  proof -
    from create_events_Inr [OF that assms(2)]
    have "Location (fst (sched ! n)) = Some (location (evs' ! n))" by auto
    with loc show ?thesis by simp
  qed
  with len loc assms(2) show ?thesis by simp
qed

theorem location_unsubstituted_witness:
  "(1::nat) < length example_events \<and> location (example_events ! 1) = ''SC-100''"
proof -
  have n: "(1::nat) < length (map (minus_offset 30) cleaned_example)"
    by (simp add: cleaned_example_def)
  from location_unsubstituted [OF events_example n]
  have "Location (fst (map (minus_offset 30) cleaned_example ! 1)) = Some (location (example_events ! 1))"
    and "(1::nat) < length example_events"
    by blast+
  moreover have "Location (fst (map (minus_offset 30) cleaned_example ! 1)) = Some ''SC-100''"
    unfolding offset_example by (simp add: exam_def)
  ultimately show ?thesis by simp
qed

section \<open>Warnings of the conflict detector\<close>

lemma set_explode_row:
  "a \<in> set (explode_row row) \<Longrightarrow> fst a = fst row \<and> snd (snd a) = snd (snd row)"
  by (auto simp: explode_row_def split: if_splits)

lemma set_explode:
  assumes "a \<in> set (explode sched)"
  shows "\<exists>row\<in>set sched. fst a = fst row \<and> snd (snd a) = snd (snd row)"
proof -
  from assms obtain row where "row \<in> set sched" "a \<in> set (explode_row row)"
    by (auto simp: explode_def)
  then show ?thesis using set_explode_row by blast
qed

lemma set_double_bookings:
  "(a, b) \<in> set (double_bookings sched) \<longleftrightarrow>
     a \<in> set (explode sched) \<and> b \<in> set (explode sched) \<and> double_booked a b"
  by (simp add: double_bookings_def set_join_where)

lemma warning_total:
  assumes "Start_time (fst a) \<noteq> None" "End_time (fst a) \<noteq> None"
    "Start_time (fst b) \<noteq> None" "End_time (fst b) \<noteq> None"
  shows "\<exists>m. warning (a, b) = Inr m"
  using assms by (auto simp: warning_def)

lemma log_warnings_Inr:
  "log_warnings pairs w = Inr w1 \<Longrightarrow>
     Files w1 = Files w \<and> (\<exists>warnings. length warnings = length pairs \<and> Log w1 = Log w @ warnings)"
proof (induction pairs arbitrary: w)
  case Nil
  then show ?case by simp
next
  case (Cons pair pairs)
  from Cons.prems obtain msg where msg: "warning pair = Inr msg"
    by (cases "warning pair") simp_all
  with Cons.prems have "log_warnings pairs (w\<lparr>Log := Log w @ [msg]\<rparr>) = Inr w1" by simp
  from Cons.IH [OF this] obtain warnings where "Files w1 = Files w"
    and "length warnings = length pairs" and "Log w1 = Log w @ msg # warnings"
    by auto
  then have "length (msg # warnings) = length (pair # pairs) \<and> Log w1 = Log w @ msg # warnings"
    by simp
  with \<open>Files w1 = Files w\<close> show ?case by blast
qed

lemma log_warnings_total:
  "(\<forall>pair\<in>set pairs. \<exists>msg. warning pair = Inr msg) \<Longrightarrow>
     \<exists>warnings. length warnings = length pairs \<and> log_warnings pairs w = Inr (w\<lparr>Log := Log w @ warnings\<rparr>)"
proof (induction pairs arbitrary: w)
  case Nil
  have "length ([] :: log_record list) = length ([] :: ('a appointment \<times> 'a appointment) list)
      \<and> log_warnings ([] :: ('a appointment \<times> 'a appointment) list) w = Inr (w\<lparr>Log := Log w @ []\<rparr>)"
    by simp
  then show ?case by blast
next
  case (Cons pair pairs)
  from Cons.prems obtain msg where msg: "warning pair = Inr msg" by auto
  from Cons.prems have "\<forall>pair\<in>set pairs. \<exists>msg. warning pair = Inr msg" by simp
  from Cons.IH [OF this, of "w\<lparr>Log := Log w @ [msg]\<rparr>"]
  obtain warnings where len: "length warnings = length pairs"
    and run: "log_warnings pairs (w\<lparr>Log := Log w @ [msg]\<rparr>) = Inr (w\<lparr>Log := Log w @ msg # warnings\<rparr>)"
    by auto
  have "length (msg # warnings) = length (pair # pairs)
      \<and> log_warnings (pair # pairs) w = Inr (w\<lparr>Log := Log w @ msg # warnings\<rparr>)"
    using len run msg by simp
  then show ?case by blast
qed

lemma check_for_double_bookings_total:
  assumes "\<forall>row\<in>set sched. Start_time (fst row) \<noteq> None \<and> End_time (fst row) \<noteq> None"
  shows "\<exists>warnings. length warnings = length (double_bookings sched)
           \<and> check_for_double_bookings sched w = Inr (w\<lparr>Log := Log w @ warnings\<rparr>)"
  unfolding check_for_double_bookings_def
proof (rule log_warnings_total, rule ballI)
  fix pair assume pair: "pair \<in> set (double_bookings sched)"
  obtain a b where ab: "pair = (a, b)" by (cases pair)
  from pair ab have "a \<in> set (explode sched)" "b \<in> set (explode sched)"
    by (simp_all add: set_double_bookings)
  with assms have "Start_time (fst a) \<noteq> None" "End_time (fst a) \<noteq> None"
    "Start_time (fst b) \<noteq> None" "End_time (fst b) \<noteq> None"
    by (metis set_explode)+
  then show "\<exists>y. warning pair = Inr y"
    unfolding ab by (rule warning_total)
qed

lemma check_for_double_bookings_Inr:
  assumes "check_for_double_bookings sched w = Inr w1"
  shows "Files w1 = Files w
    \<and> (\<exists>warnings. length warnings = length (double_bookings sched) \<and> Log w1 = Log w @ warnings)"
  using assms log_warnings_Inr unfolding check_for_double_bookings_def by blast


section \<open>The calendars \<open>main\<close> writes\<close>

lemma write_proctors_Inr:
  "write_proctors fs period gs w = Inr w' \<Longrightarrow>
     Files w' = Files w @ map (\<lambda>g. (Processed_ics period (fmt (fst g)), map (\<lambda>a. snd (snd a)) (snd g))) gs
     \<and> Log w' = Log w"
proof (induction gs arbitrary: w)
  case Nil
  then show ?case by simp
next
  case (Cons g gs)
  from Cons.prems obtain w1 where w1: "write_proctor fs period g w = Inr w1"
    by (cases "write_proctor fs period g w") simp_all
  with Cons.prems have rest: "write_proctors fs period gs w1 = Inr w'" by simp
  from w1 have "w1 = w\<lparr>Files := Files w @ [(Processed_ics period (fmt (fst g)), map (\<lambda>a. snd (snd a)) (snd g))]\<rparr>"
    by (simp add: write_proctor_def write_ics_def split: if_splits)
  with Cons.IH [OF rest] show ?case by simp
qed

lemma write_proctors_accepted:
  "(\<forall>path. fs path) \<Longrightarrow>
     write_proctors fs period gs w =
       Inr (w\<lparr>Files := Files w @ map (\<lambda>g. (Processed_ics period (fmt (fst g)), map (\<lambda>a. snd (snd a)) (snd g))) gs\<rparr>)"
  by (induction gs arbitrary: w) (simp_all add: write_proctor_def write_ics_def)

lemma write_calendars_Inr:
  assumes "write_calendars fs sched w = Inr w'"
  shows "Files w' = Files w @ (Interim_ics (schedule_period sched), map (\<lambda>row. snd (snd row)) sched)
                      # proctor_files sched
    \<and> Log w' = Log w"
proof -
  from assms obtain w1 where
    w1: "write_ics fs (Interim_ics (schedule_period sched)) (map (\<lambda>row. snd (snd row)) sched) w = Inr w1"
    and rest: "write_proctors fs (schedule_period sched) (group_by_Proctor (explode sched)) w1 = Inr w'"
    by (auto simp: write_calendars_def split: sum.splits)
  from w1 have "w1 = w\<lparr>Files := Files w @ [(Interim_ics (schedule_period sched), map (\<lambda>row. snd (snd row)) sched)]\<rparr>"
    by (simp add: write_ics_def split: if_splits)
  with write_proctors_Inr [OF rest] show ?thesis
    by (simp add: proctor_files_def)
qed

lemma write_calendars_accepted:
  assumes "\<forall>path. fs path"
  shows "write_calendars fs sched w =
     Inr \<lparr> Log = Log w,
           Files = Files w @ (Interim_ics (schedule_period sched), map (\<lambda>row. snd (snd row)) sched)
                     # proctor_files sched \<rparr>"
  using assms
  by (simp add: write_calendars_def write_ics_def write_proctors_accepted [OF assms] proctor_files_def)

text \<open>The writes do not look at the log: with another log they do the same and keep that log.\<close>

lemma Log_Files_update: "w\<lparr>Log := l, Files := F\<rparr> = w\<lparr>Files := F, Log := l\<rparr>"
  by (cases w) simp

lemma write_ics_Log:
  "write_ics fs path cal (w\<lparr>Log := l\<rparr>) =
     map_sum (apsnd (\<lambda>wf. wf\<lparr>Log := l\<rparr>)) (\<lambda>w2. w2\<lparr>Log := l\<rparr>) (write_ics fs path cal w)"
  by (simp add: write_ics_def Log_Files_update)

lemma write_proctors_Log:
  "write_proctors fs period gs (w\<lparr>Log := l\<rparr>) =
     map_sum (apsnd (\<lambda>wf. wf\<lparr>Log := l\<rparr>)) (\<lambda>w2. w2\<lparr>Log := l\<rparr>) (write_proctors fs period gs w)"
proof (induction gs arbitrary: w)
  case Nil
  show ?case by simp
next
  case (Cons g gs)
  let ?F = "Files w @ [(Processed_ics period (fmt (fst g)), map (\<lambda>a. snd (snd a)) (snd g))]"
  show ?case
  proof (cases "fs (Processed_ics period (fmt (fst g)))")
    case True
    have "write_proctors fs period (g # gs) (w\<lparr>Log := l\<rparr>)
        = write_proctors fs period gs (w\<lparr>Files := ?F, Log := l\<rparr>)"
      using True by (simp add: write_proctor_def write_ics_def Log_Files_update)
    also have "\<dots> = map_sum (apsnd (\<lambda>wf. wf\<lparr>Log := l\<rparr>)) (\<lambda>w2. w2\<lparr>Log := l\<rparr>)
        (write_proctors fs period gs (w\<lparr>Files := ?F\<rparr>))"
      by (rule Cons.IH)
    also have "write_proctors fs period gs (w\<lparr>Files := ?F\<rparr>) = write_proctors fs period (g # gs) w"
      using True by (simp add: write_proctor_def write_ics_def)
    finally show ?thesis .
  next
    case False
    then show ?thesis by (simp add: write_proctor_def write_ics_def)
  qed
qed

lemma write_calendars_Log:
  "write_calendars fs sched (w\<lparr>Log := l\<rparr>) =
     map_sum (apsnd (\<lambda>wf. wf\<lparr>Log := l\<rparr>)) (\<lambda>w2. w2\<lparr>Log := l\<rparr>) (write_calendars fs sched w)"
proof (cases "fs (Interim_ics (schedule_period sched))")
  case True
  let ?F = "Files w @ [(Interim_ics (schedule_period sched), map (\<lambda>row. snd (snd row)) sched)]"
  have "write_calendars fs sched (w\<lparr>Log := l\<rparr>)
      = write_proctors fs (schedule_period sched) (group_by_Proctor (explode sched)) (w\<lparr>Files := ?F, Log := l\<rparr>)"
    using True by (simp add: write_calendars_def write_ics_def Log_Files_update)
  also have "\<dots> = map_sum (apsnd (\<lambda>wf. wf\<lparr>Log := l\<rparr>)) (\<lambda>w2. w2\<lparr>Log := l\<rparr>)
      (write_proctors fs (schedule_period sched) (group_by_Proctor (explode sched)) (w\<lparr>Files := ?F\<rparr>))"
    by (rule write_proctors_Log)
  also have "write_proctors fs (schedule_period sched) (group_by_Proctor (explode sched)) (w\<lparr>Files := ?F\<rparr>)
      = write_calendars fs sched w"
    using True by (simp add: write_calendars_def write_ics_def)
  finally show ?thesis .
next
  case False
  then show ?thesis by (simp add: write_calendars_def write_ics_def)
qed

lemma main_Inr:
  assumes "main tz fs csv uids s m w = Inr w'"
  shows "\<exists>cleaned evs w1 w2.
      clean_proctor_schedule tz s = Inr cleaned
      \<and> create_events csv uids (map (minus_offset m) cleaned) = Inr evs
      \<and> check_for_double_bookings (with_events (map (minus_offset m) cleaned) evs) w = Inr w1
      \<and> write_calendars fs (with_events (map (minus_offset m) cleaned) evs) w1 = Inr w2
      \<and> w' = w2\<lparr>Log := Log w2 @ [Created (schedule_period (with_events (map (minus_offset m) cleaned) evs))]\<rparr>"
  using assms unfolding main_def Let_def
  by (auto split: sum.splits)

lemma clean_proctor_lists:
  assumes "clean_proctor_schedule tz s = Inr ne" and "row \<in> set ne"
  shows "distinct (snd row) \<and> snd row \<noteq> []"
proof -
  from assms(1) have run: "each_row (with_times tz) (grouped_table s) = Inr ne"
    by (simp add: clean_proctor_schedule_def)
  from assms(2) obtain i where i: "i < length ne" "row = ne ! i"
    by (auto simp: in_set_conv_nth)
  from each_row_Inr [OF run] i
  have gi: "i < length (grouped_table s)" and "with_times tz (grouped_table s ! i) = Inr row"
    by simp_all
  from with_times_Inr [OF this(2)] have "snd row = snd (grouped_table s ! i)" by auto
  moreover have "grouped_table s ! i \<in> set (group_by_agg (filled_table s))"
    using gi by (simp add: grouped_table_def)
  ultimately show ?thesis using group_by_agg_proctors by metis
qed

lemma length_with_events [simp]: "length (with_events df evs) = min (length df) (length evs)"
  by (simp add: with_events_def)

lemma nth_with_events:
  "n < length df \<Longrightarrow> n < length evs \<Longrightarrow> with_events df evs ! n = (fst (df ! n), snd (df ! n), evs ! n)"
  by (simp add: with_events_def)

lemma with_events_events:
  "length evs = length df \<Longrightarrow> map (\<lambda>row. snd (snd row)) (with_events df evs) = evs"
  by (rule nth_equalityI) (simp_all add: nth_with_events)

lemma with_events_proctors:
  "length evs = length df \<Longrightarrow> map (\<lambda>row. fst (snd row)) (with_events df evs) = map snd df"
  by (rule nth_equalityI) (simp_all add: nth_with_events)

text \<open>
  An offset of ordinary size is subtracted as it is; \<open>2 ^ 62\<close> minutes wrap to a duration
  of zero.
\<close>

lemma duration_us_in_range:
  "- (2 ^ 63) \<le> minutes * 60000000 \<Longrightarrow> minutes * 60000000 < 2 ^ 63 \<Longrightarrow>
     duration_us minutes = minutes * 60000000"
  by (simp add: duration_us_def wrap64_def)

lemma duration_us_wraps: "duration_us (2 ^ 62) = 0"
  by (simp add: duration_us_def wrap64_def)

lemma minus_offset_30:
  "- 9000000000000000 \<le> t \<Longrightarrow> t \<le> 9000000000000000 \<Longrightarrow>
     minus_offset 30 (k\<lparr>Start_time := Some t\<rparr>, ps) = (k\<lparr>Start_time := Some (t - 1800000)\<rparr>, ps)"
  by (simp add: minus_offset_def duration_us_def wrap64_def)

lemma snd_minus_offset [simp]: "snd (minus_offset m row) = snd row"
  by (simp add: minus_offset_def)

lemma filter_eq_distinct:
  "distinct xs \<Longrightarrow> filter (\<lambda>q. q = p) xs = (if p \<in> set xs then [p] else [])"
  by (induction xs) auto

lemma explode_row_events_of:
  assumes "distinct (fst (snd row))"
  shows "map (\<lambda>a. snd (snd a)) (filter (\<lambda>a. fst (snd a) = Some p) (explode_row row))
           = (if p \<in> set (fst (snd row)) then [snd (snd row)] else [])"
proof (cases "fst (snd row) = []")
  case True
  then show ?thesis by (simp add: explode_row_def)
next
  case False
  have "filter (\<lambda>a. fst (snd a) = Some p) (map (\<lambda>q. (fst row, Some q, snd (snd row))) (fst (snd row)))
      = map (\<lambda>q. (fst row, Some q, snd (snd row))) (filter (\<lambda>q. q = p) (fst (snd row)))"
    by (simp add: filter_map comp_def)
  with False assms show ?thesis
    by (simp add: explode_row_def filter_eq_distinct)
qed

lemma explode_events_of:
  assumes "\<forall>row\<in>set sched. distinct (fst (snd row))"
  shows "map (\<lambda>a. snd (snd a)) (filter (\<lambda>a. fst (snd a) = Some p) (explode sched))
           = map (\<lambda>row. snd (snd row)) (filter (\<lambda>row. p \<in> set (fst (snd row))) sched)"
  using assms
proof (induction sched)
  case Nil
  show ?case by (simp add: explode_def)
next
  case (Cons row sched)
  have "explode (row # sched) = explode_row row @ explode sched"
    by (simp add: explode_def)
  with Cons explode_row_events_of [of row p] show ?case by simp
qed

lemma length_explode:
  assumes "\<forall>row\<in>set sched. fst (snd row) \<noteq> []"
  shows "length (explode sched) = sum_list (map (\<lambda>row. length (fst (snd row))) sched)"
  using assms by (induction sched) (simp_all add: explode_def explode_row_def)

lemma sum_length_filter_keys:
  assumes "finite K" and "f ` set xs \<subseteq> K"
  shows "(\<Sum>k\<in>K. length (filter (\<lambda>a. f a = k) xs)) = length xs"
  using assms(2)
proof (induction xs)
  case Nil
  show ?case by simp
next
  case (Cons x xs)
  have "(\<Sum>k\<in>K. length (filter (\<lambda>a. f a = k) (x # xs)))
      = (\<Sum>k\<in>K. (if f x = k then 1 else 0) + length (filter (\<lambda>a. f a = k) xs))"
    by (intro sum.cong) auto
  also have "\<dots> = (\<Sum>k\<in>K. if f x = k then 1 else 0) + (\<Sum>k\<in>K. length (filter (\<lambda>a. f a = k) xs))"
    by (simp add: sum.distrib)
  also have "(\<Sum>k\<in>K. if f x = k then 1 else (0::nat)) = 1"
    using assms(1) Cons.prems by simp
  finally show ?case using Cons by simp
qed

lemma group_by_Proctor_total:
  "sum_list (map (\<lambda>g. length (snd g)) (group_by_Proctor apps)) = length apps"
proof -
  let ?keys = "remdups (map (\<lambda>a. fst (snd a)) apps)"
  have "sum_list (map (\<lambda>g. length (snd g)) (group_by_Proctor apps))
      = sum_list (map (\<lambda>p. length (filter (\<lambda>a. fst (snd a) = p) apps)) ?keys)"
    by (simp add: group_by_Proctor_def comp_def)
  also have "\<dots> = (\<Sum>p\<in>set ?keys. length (filter (\<lambda>a. fst (snd a) = p) apps))"
    by (rule sum_list_distinct_conv_sum_set) simp
  also have "\<dots> = length apps"
    by (rule sum_length_filter_keys) auto
  finally show ?thesis .
qed

lemma create_events_times:
  assumes "create_events csv uids df = Inr evs"
  shows "\<forall>row\<in>set (with_events df evs). Start_time (fst row) \<noteq> None \<and> End_time (fst row) \<noteq> None"
proof
  fix row assume "row \<in> set (with_events df evs)"
  then obtain n where n: "n < length (with_events df evs)" "row = with_events df evs ! n"
    by (auto simp: in_set_conv_nth)
  from n create_events_length [OF assms] have n': "n < length df" by simp
  with n create_events_length [OF assms] have "fst row = fst (df ! n)"
    by (simp add: nth_with_events)
  with create_events_Inr [OF assms n'] show "Start_time (fst row) \<noteq> None \<and> End_time (fst row) \<noteq> None"
    by auto
qed

lemma main_files:
  assumes "main tz fs csv uids s m w = Inr w'"
  shows "\<exists>ne evs. clean_proctor_schedule tz s = Inr ne
      \<and> create_events csv uids (map (minus_offset m) ne) = Inr evs \<and> length evs = length ne
      \<and> Files w' = Files w @ (Interim_ics (schedule_period (with_events (map (minus_offset m) ne) evs)), evs)
                     # proctor_files (with_events (map (minus_offset m) ne) evs)"
proof -
  from main_Inr [OF assms] obtain ne evs w1 w2 where
    ne: "clean_proctor_schedule tz s = Inr ne"
    and evs: "create_events csv uids (map (minus_offset m) ne) = Inr evs"
    and w1: "check_for_double_bookings (with_events (map (minus_offset m) ne) evs) w = Inr w1"
    and w2: "write_calendars fs (with_events (map (minus_offset m) ne) evs) w1 = Inr w2"
    and w': "w' = w2\<lparr>Log := Log w2 @ [Created (schedule_period (with_events (map (minus_offset m) ne) evs))]\<rparr>"
    by blast
  from create_events_length [OF evs] have len: "length evs = length (map (minus_offset m) ne)" .
  from check_for_double_bookings_Inr [OF w1] have "Files w1 = Files w" by simp
  with w' write_calendars_Inr [OF w2]
  have "Files w' = Files w @ (Interim_ics (schedule_period (with_events (map (minus_offset m) ne) evs)), evs)
                     # proctor_files (with_events (map (minus_offset m) ne) evs)"
    by (simp add: with_events_events [OF len])
  with ne evs len show ?thesis by auto
qed

lemma proctor_files_total:
  assumes "\<forall>row\<in>set sched. fst (snd row) \<noteq> []"
  shows "sum_list (map (\<lambda>f. length (snd f)) (proctor_files sched))
           = sum_list (map (\<lambda>row. length (fst (snd row))) sched)"
proof -
  have "sum_list (map (\<lambda>f. length (snd f)) (proctor_files sched))
      = sum_list (map (\<lambda>g. length (snd g)) (group_by_Proctor (explode sched)))"
    by (simp add: proctor_files_def comp_def)
  then show ?thesis
    by (simp add: group_by_Proctor_total length_explode [OF assms])
qed

lemma proctor_files_of:
  assumes "\<forall>row\<in>set sched. distinct (fst (snd row))"
    and "row \<in> set sched" and "p \<in> set (fst (snd row))"
  shows "(Processed_ics (schedule_period sched) p,
          map (\<lambda>row. snd (snd row)) (filter (\<lambda>row. p \<in> set (fst (snd row))) sched))
         \<in> set (proctor_files sched)"
proof -
  from assms(3) have "fst (snd row) \<noteq> []" by auto
  with assms(3) have "(fst row, Some p, snd (snd row)) \<in> set (explode_row row)"
    by (simp add: explode_row_def)
  with assms(2) have "(fst row, Some p, snd (snd row)) \<in> set (explode sched)"
    by (auto simp: explode_def)
  then have "Some p \<in> set (map (\<lambda>a. fst (snd a)) (explode sched))" by force
  then have "(Some p, filter (\<lambda>a. fst (snd a) = Some p) (explode sched)) \<in> set (group_by_Proctor (explode sched))"
    by (simp add: group_by_Proctor_def)
  then have "(Processed_ics (schedule_period sched) (fmt (Some p)),
              map (\<lambda>a. snd (snd a)) (filter (\<lambda>a. fst (snd a) = Some p) (explode sched)))
            \<in> set (proctor_files sched)"
    unfolding proctor_files_def by force
  then show ?thesis
    by (simp add: explode_events_of [OF assms(1)] fmt_def)
qed

lemma proctor_files_distinct:
  assumes "\<forall>row\<in>set sched. fst (snd row) \<noteq> []"
  shows "distinct (map fst (proctor_files sched))"
proof -
  let ?keys = "remdups (map (\<lambda>a. fst (snd a)) (explode sched))"
  have keys: "None \<notin> set ?keys"
    using assms by (auto simp: explode_def explode_row_def split: if_splits)
  have "inj_on (\<lambda>q. Processed_ics (schedule_period sched) (fmt q)) (set ?keys)"
  proof (rule inj_onI)
    fix x y assume "x \<in> set ?keys" "y \<in> set ?keys"
      and eq: "Processed_ics (schedule_period sched) (fmt x) = Processed_ics (schedule_period sched) (fmt y)"
    with keys obtain a b where "x = Some a" "y = Some b" by (cases x; cases y) auto
    with eq show "x = y" by (simp add: fmt_def)
  qed
  moreover have "map fst (proctor_files sched) = map (\<lambda>q. Processed_ics (schedule_period sched) (fmt q)) ?keys"
    by (simp add: proctor_files_def group_by_Proctor_def comp_def)
  ultimately show ?thesis by (simp add: distinct_map)
qed

lemma proctor_files_subset:
  assumes "f \<in> set (proctor_files sched)"
  shows "set (snd f) \<subseteq> set (map (\<lambda>row. snd (snd row)) sched)"
proof
  fix e assume e: "e \<in> set (snd f)"
  from assms obtain g where g: "g \<in> set (group_by_Proctor (explode sched))"
    and f: "f = (Processed_ics (schedule_period sched) (fmt (fst g)), map (\<lambda>a. snd (snd a)) (snd g))"
    by (auto simp: proctor_files_def)
  from g have "set (snd g) \<subseteq> set (explode sched)"
    by (auto simp: group_by_Proctor_def)
  with e f obtain a where "a \<in> set (explode sched)" "e = snd (snd a)" by auto
  with set_explode [of a sched] show "e \<in> set (map (\<lambda>row. snd (snd row)) sched)" by force
qed


lemma with_events_zip:
  "with_events (map (minus_offset m) ne) evs
     = map (\<lambda>x. (fst (minus_offset m (fst x)), snd (fst x), snd x)) (zip ne evs)"
  by (simp add: with_events_def zip_map1 case_prod_beta)

lemma events_of_proctor:
  "map (\<lambda>row. snd (snd row)) (filter (\<lambda>row. p \<in> set (fst (snd row))) (with_events (map (minus_offset m) ne) evs))
     = map snd (filter (\<lambda>x. p \<in> set (snd (fst x))) (zip ne evs))"
  by (simp add: with_events_zip filter_map comp_def)

lemma length_filter_zip_fst:
  assumes "length ys = length xs"
  shows "length (filter (\<lambda>x. P (fst x)) (zip xs ys)) = length (filter P xs)"
proof -
  have "length (filter P (map fst (zip xs ys))) = length (filter (P \<circ> fst) (zip xs ys))"
    by (rule length_filter_map)
  moreover have "map fst (zip xs ys) = xs"
    using assms by simp
  ultimately show ?thesis by (simp add: comp_def)
qed

lemma scheduled_proctor_lists:
  assumes "clean_proctor_schedule tz s = Inr ne" and "length evs = length ne"
  shows "\<forall>row\<in>set (with_events (map (minus_offset m) ne) evs). distinct (fst (snd row)) \<and> fst (snd row) \<noteq> []"
proof
  fix row assume "row \<in> set (with_events (map (minus_offset m) ne) evs)"
  then obtain n where n: "n < length (with_events (map (minus_offset m) ne) evs)"
    and row: "row = with_events (map (minus_offset m) ne) evs ! n"
    by (auto simp: in_set_conv_nth)
  from n assms(2) have n': "n < length ne" by simp
  with row assms(2) have "fst (snd row) = snd (ne ! n)"
    by (simp add: nth_with_events)
  moreover from n' have "ne ! n \<in> set ne" by simp
  ultimately show "distinct (fst (snd row)) \<and> fst (snd row) \<noteq> []"
    using clean_proctor_lists [OF assms(1)] by simp
qed

lemma scheduled_proctor_total:
  assumes "length evs = length ne"
  shows "sum_list (map (\<lambda>row. length (fst (snd row))) (with_events (map (minus_offset m) ne) evs))
           = sum_list (map (\<lambda>row. length (snd row)) ne)"
proof -
  have "map (\<lambda>row. length (fst (snd row))) (with_events (map (minus_offset m) ne) evs)
      = map length (map (\<lambda>row. fst (snd row)) (with_events (map (minus_offset m) ne) evs))"
    by (simp add: comp_def)
  also have "\<dots> = map length (map snd (map (minus_offset m) ne))"
    using assms by (simp add: with_events_proctors)
  also have "\<dots> = map (\<lambda>row. length (snd row)) ne"
    by (simp add: comp_def)
  finally show ?thesis by simp
qed

lemma proctor_calendar:
  assumes "clean_proctor_schedule tz s = Inr ne" and "length evs = length ne"
    and "row \<in> set ne" and "p \<in> set (snd row)"
  shows "(Processed_ics (schedule_period (with_events (map (minus_offset m) ne) evs)) p,
          map snd (filter (\<lambda>x. p \<in> set (snd (fst x))) (zip ne evs)))
         \<in> set (proctor_files (with_events (map (minus_offset m) ne) evs))"
proof -
  let ?sched = "with_events (map (minus_offset m) ne) evs"
  from assms(3) obtain n where n: "n < length ne" "row = ne ! n"
    by (auto simp: in_set_conv_nth)
  with assms(2) have "n < length ?sched" by simp
  then have "?sched ! n \<in> set ?sched" by (rule nth_mem)
  moreover from n assms(2) have "fst (snd (?sched ! n)) = snd row"
    by (simp add: nth_with_events)
  ultimately have "?sched ! n \<in> set ?sched" "fst (snd (?sched ! n)) = snd row" by blast+
  with assms(4) proctor_files_of [of ?sched "?sched ! n" p] scheduled_proctor_lists [OF assms(1,2), of m]
  show ?thesis by (simp add: events_of_proctor)
qed

lemma sched_example:
  "with_events (map (minus_offset 30) cleaned_example) example_events = example_sched"
  unfolding offset_example by (simp add: with_events_def example_events_def example_sched_def)

lemma double_bookings_example:
  "double_bookings example_sched =
     [((exam\<lparr>Start_time := Some 1719826200000, End_time := Some 1719835200000\<rparr>, Some ''Ann'', example_events ! 1),
       (makeup\<lparr>Start_time := Some 1719829800000, End_time := Some 1719838800000, Course := Some ''1000'',
          Section := Some ''001'', Instructor := Some ''Lee'', Students_enrolled := Some 40\<rparr>, Some ''Ann'',
        example_events ! 0))]"
  by (simp add: double_bookings_def join_where_def explode_def explode_row_def double_booked_def holds_def
      example_sched_def exam_def makeup_def)

lemma check_example:
  "check_for_double_bookings example_sched empty_world =
     Inr \<lparr> Log = [Double_booked (Some ''Ann'') (Some 19905) (Some ''1000'') (Some ''001'') 1719826200000
                     1719835200000 (Some ''1000'') (Some ''001'') 1719829800000 1719838800000],
           Files = [] \<rparr>"
  by (simp add: check_for_double_bookings_def double_bookings_example warning_def empty_world_def exam_def
      makeup_def)

lemma period_example: "schedule_period example_sched = Some 19905"
  by (simp add: schedule_period_def example_sched_def exam_def makeup_def)

lemma proctor_files_example:
  "proctor_files example_sched =
     [(Processed_ics (Some 19905) ''Ann'', example_events),
      (Processed_ics (Some 19905) ''Cy'', [example_events ! 1]),
      (Processed_ics (Some 19905) ''Bob'', [example_events ! 1])]"
  unfolding proctor_files_def period_example
  by (simp add: group_by_Proctor_def explode_def explode_row_def example_sched_def fmt_def example_events_def)

lemma events_of_example: "map (\<lambda>row. snd (snd row)) example_sched = example_events"
  by (simp add: example_sched_def example_events_def)

lemma main_example:
  "main Some (\<lambda>path. True) example_csv example_uids example_sheet 30 empty_world = Inr example_world"
  by (simp add: main_def clean_example events_example sched_example check_example Let_def
      write_calendars_accepted period_example proctor_files_example events_of_example example_world_def)

text \<open>
  C7. When \<open>main\<close> returns, it has written the aggregate calendar with one event per
  NormalizedEvent and then the per-proctor calendars, each under its own path. The events
  of the per-proctor calendars number, in all, the sum of the sizes of the proctor lists,
  and the calendar of a proctor holds as many events as NormalizedEvents list that proctor.
\<close>

theorem calendar_event_counts:
  assumes "main tz fs csv uids s m w = Inr w'" and "clean_proctor_schedule tz s = Inr ne"
  shows "\<exists>period evs pp. Files w' = Files w @ (Interim_ics period, evs) # pp
     \<and> length evs = length ne
     \<and> sum_list (map (\<lambda>f. length (snd f)) pp) = sum_list (map (\<lambda>row. length (snd row)) ne)
     \<and> distinct (map fst pp)
     \<and> (\<forall>p. (\<exists>row\<in>set ne. p \<in> set (snd row)) \<longrightarrow>
           (\<exists>cal. (Processed_ics period p, cal) \<in> set pp
              \<and> length cal = length (filter (\<lambda>row. p \<in> set (snd row)) ne)))"
proof -
  from main_files [OF assms(1)] assms(2) obtain evs where
    len: "length evs = length ne"
    and files: "Files w' = Files w @ (Interim_ics (schedule_period (with_events (map (minus_offset m) ne) evs)), evs)
                     # proctor_files (with_events (map (minus_offset m) ne) evs)"
    by auto
  let ?sched = "with_events (map (minus_offset m) ne) evs"
  note lists = scheduled_proctor_lists [OF assms(2) len, of m]
  have total: "sum_list (map (\<lambda>f. length (snd f)) (proctor_files ?sched)) = sum_list (map (\<lambda>row. length (snd row)) ne)"
    using proctor_files_total [of ?sched] lists scheduled_proctor_total [OF len, of m] by simp
  have paths: "distinct (map fst (proctor_files ?sched))"
    using proctor_files_distinct [of ?sched] lists by simp
  have each: "\<exists>cal. (Processed_ics (schedule_period ?sched) p, cal) \<in> set (proctor_files ?sched)
      \<and> length cal = length (filter (\<lambda>row. p \<in> set (snd row)) ne)"
    if "\<exists>row\<in>set ne. p \<in> set (snd row)" for p
  proof -
    from that obtain row where "row \<in> set ne" "p \<in> set (snd row)" by blast
    from proctor_calendar [OF assms(2) len this]
    have "(Processed_ics (schedule_period ?sched) p, map snd (filter (\<lambda>x. p \<in> set (snd (fst x))) (zip ne evs)))
        \<in> set (proctor_files ?sched)" .
    moreover have "length (map snd (filter (\<lambda>x. p \<in> set (snd (fst x))) (zip ne evs)))
        = length (filter (\<lambda>row. p \<in> set (snd row)) ne)"
      using length_filter_zip_fst [OF len, of "\<lambda>row. p \<in> set (snd row)"] by simp
    ultimately show ?thesis by blast
  qed
  from files len total paths each show ?thesis by blast
qed

theorem calendar_event_counts_witness:
  "\<exists>period evs pp. Files example_world = (Interim_ics period, evs) # pp
     \<and> length evs = 2
     \<and> sum_list (map (\<lambda>f. length (snd f)) pp) = 4
     \<and> distinct (map fst pp)
     \<and> (\<exists>cal. (Processed_ics period ''Ann'', cal) \<in> set pp \<and> length cal = 2)"
proof -
  from calendar_event_counts [OF main_example clean_example]
  obtain period evs pp where files: "Files example_world = Files empty_world @ (Interim_ics period, evs) # pp"
    and len: "length evs = length cleaned_example"
    and total: "sum_list (map (\<lambda>f. length (snd f)) pp) = sum_list (map (\<lambda>row. length (snd row)) cleaned_example)"
    and paths: "distinct (map fst pp)"
    and each: "\<forall>p. (\<exists>row\<in>set cleaned_example. p \<in> set (snd row)) \<longrightarrow>
           (\<exists>cal. (Processed_ics period p, cal) \<in> set pp
              \<and> length cal = length (filter (\<lambda>row. p \<in> set (snd row)) cleaned_example))"
    by blast
  have "\<exists>row\<in>set cleaned_example. ''Ann'' \<in> set (snd row)"
    by (simp add: cleaned_example_def)
  with each obtain cal where "(Processed_ics period ''Ann'', cal) \<in> set pp"
    and "length cal = length (filter (\<lambda>row. ''Ann'' \<in> set (snd row)) cleaned_example)"
    by blast
  then have ann: "\<exists>cal. (Processed_ics period ''Ann'', cal) \<in> set pp \<and> length cal = 2"
    by (auto simp: cleaned_example_def)
  from files have "Files example_world = (Interim_ics period, evs) # pp"
    by (simp add: empty_world_def)
  moreover from len have "length evs = 2" by (simp add: cleaned_example_def)
  moreover from total have "sum_list (map (\<lambda>f. length (snd f)) pp) = 4" by (simp add: cleaned_example_def)
  ultimately show ?thesis using paths ann by blast
qed

text \<open>
  C10. The aggregate calendar holds the events \<open>create_events\<close> returned, one per
  NormalizedEvent in schedule order. For every NormalizedEvent and every proctor of it,
  that proctor's calendar holds the very event of the aggregate calendar (uid included),
  and a per-proctor calendar holds no event that is not in the aggregate calendar.
\<close>

theorem proctor_calendars_share_events:
  assumes "main tz fs csv uids s m w = Inr w'" and "clean_proctor_schedule tz s = Inr ne"
  shows "\<exists>period evs pp. create_events csv uids (map (minus_offset m) ne) = Inr evs
     \<and> Files w' = Files w @ (Interim_ics period, evs) # pp
     \<and> length evs = length ne
     \<and> (\<forall>n<length ne. \<forall>p\<in>set (snd (ne ! n)).
           \<exists>cal. (Processed_ics period p, cal) \<in> set pp \<and> evs ! n \<in> set cal)
     \<and> (\<forall>f\<in>set pp. set (snd f) \<subseteq> set evs)"
proof -
  from main_files [OF assms(1)] assms(2) obtain evs where
    evs: "create_events csv uids (map (minus_offset m) ne) = Inr evs"
    and len: "length evs = length ne"
    and files: "Files w' = Files w @ (Interim_ics (schedule_period (with_events (map (minus_offset m) ne) evs)), evs)
                     # proctor_files (with_events (map (minus_offset m) ne) evs)"
    by auto
  let ?sched = "with_events (map (minus_offset m) ne) evs"
  have same: "\<exists>cal. (Processed_ics (schedule_period ?sched) p, cal) \<in> set (proctor_files ?sched) \<and> evs ! n \<in> set cal"
    if "n < length ne" "p \<in> set (snd (ne ! n))" for n p
  proof -
    from that(1) have "ne ! n \<in> set ne" by simp
    from proctor_calendar [OF assms(2) len this that(2)]
    have "(Processed_ics (schedule_period ?sched) p, map snd (filter (\<lambda>x. p \<in> set (snd (fst x))) (zip ne evs)))
        \<in> set (proctor_files ?sched)" .
    moreover have "(ne ! n, evs ! n) \<in> set (zip ne evs)"
      using that(1) len by (auto simp: set_zip)
    then have "evs ! n \<in> set (map snd (filter (\<lambda>x. p \<in> set (snd (fst x))) (zip ne evs)))"
      using that(2) by force
    ultimately show ?thesis by blast
  qed
  have sub: "set (snd f) \<subseteq> set evs" if "f \<in> set (proctor_files ?sched)" for f
    using proctor_files_subset [OF that] len by (simp add: with_events_events)
  from evs files len same sub show ?thesis by blast
qed

theorem proctor_calendars_share_events_witness:
  "\<exists>period evs pp. create_events example_csv example_uids (map (minus_offset 30) cleaned_example) = Inr evs
     \<and> Files example_world = (Interim_ics period, evs) # pp
     \<and> (\<exists>cal. (Processed_ics period ''Cy'', cal) \<in> set pp \<and> evs ! 1 \<in> set cal)"
proof -
  from proctor_calendars_share_events [OF main_example clean_example]
  obtain period evs pp where evs: "create_events example_csv example_uids (map (minus_offset 30) cleaned_example) = Inr evs"
    and files: "Files example_world = Files empty_world @ (Interim_ics period, evs) # pp"
    and each: "\<forall>n<length cleaned_example. \<forall>p\<in>set (snd (cleaned_example ! n)).
           \<exists>cal. (Processed_ics period p, cal) \<in> set pp \<and> evs ! n \<in> set cal"
    by blast
  have "(1::nat) < length cleaned_example" "''Cy'' \<in> set (snd (cleaned_example ! 1))"
    by (simp_all add: cleaned_example_def)
  with each have "\<exists>cal. (Processed_ics period ''Cy'', cal) \<in> set pp \<and> evs ! 1 \<in> set cal"
    by blast
  moreover from files have "Files example_world = (Interim_ics period, evs) # pp"
    by (simp add: empty_world_def)
  ultimately show ?thesis using evs by blast
qed

text \<open>
  C5. Double bookings are not fatal. The conflict pass leaves the files alone and only
  appends to the log. Once the schedule is cleaned and its events are built, the pass
  returns, with one warning per reported pair, and \<open>main\<close> ends as the writing of the
  calendars alone ends, run without the pass: where that writes every file \<open>main\<close> returns
  with the same files, and where a write fails \<open>main\<close> fails with that error and the same
  files written so far. On a file system that takes every write \<open>main\<close> returns with the
  aggregate calendar and every per-proctor calendar, whatever the number of double bookings.
\<close>

theorem double_bookings_never_fatal:
  assumes "clean_proctor_schedule tz s = Inr ne"
    and "create_events csv uids (map (minus_offset m) ne) = Inr evs"
  shows "(\<forall>w1. check_for_double_bookings (with_events (map (minus_offset m) ne) evs) w = Inr w1
            \<longrightarrow> Files w1 = Files w \<and> (\<exists>warnings. Log w1 = Log w @ warnings))
    \<and> (\<exists>warnings. length warnings = length (double_bookings (with_events (map (minus_offset m) ne) evs))
          \<and> check_for_double_bookings (with_events (map (minus_offset m) ne) evs) w
                = Inr (w\<lparr>Log := Log w @ warnings\<rparr>)
          \<and> (\<forall>w2. write_calendars fs (with_events (map (minus_offset m) ne) evs) w = Inr w2 \<longrightarrow>
                main tz fs csv uids s m w =
                  Inr (w2\<lparr>Log := Log w @ warnings
                         @ [Created (schedule_period (with_events (map (minus_offset m) ne) evs))]\<rparr>))
          \<and> (\<forall>e wf. write_calendars fs (with_events (map (minus_offset m) ne) evs) w = Inl (e, wf) \<longrightarrow>
                main tz fs csv uids s m w = Inl (e, wf\<lparr>Log := Log w @ warnings\<rparr>))
          \<and> ((\<forall>path. fs path) \<longrightarrow>
                main tz fs csv uids s m w =
                  Inr \<lparr> Log = Log w @ warnings
                           @ [Created (schedule_period (with_events (map (minus_offset m) ne) evs))],
                        Files = Files w
                           @ (Interim_ics (schedule_period (with_events (map (minus_offset m) ne) evs)), evs)
                           # proctor_files (with_events (map (minus_offset m) ne) evs) \<rparr>))"
proof -
  let ?sched = "with_events (map (minus_offset m) ne) evs"
  have only_warns: "Files w1 = Files w \<and> (\<exists>warnings. Log w1 = Log w @ warnings)"
    if "check_for_double_bookings ?sched w = Inr w1" for w1
    using check_for_double_bookings_Inr [OF that] by blast
  from check_for_double_bookings_total [OF create_events_times [OF assms(2)], of w]
  obtain warnings where n: "length warnings = length (double_bookings ?sched)"
    and pass: "check_for_double_bookings ?sched w = Inr (w\<lparr>Log := Log w @ warnings\<rparr>)"
    by blast
  have start: "main tz fs csv uids s m w =
      (case write_calendars fs ?sched (w\<lparr>Log := Log w @ warnings\<rparr>) of
         Inl f \<Rightarrow> Inl f
       | Inr w2 \<Rightarrow> Inr (w2\<lparr>Log := Log w2 @ [Created (schedule_period ?sched)]\<rparr>))"
    using assms pass by (simp add: main_def Let_def)
  have written: "main tz fs csv uids s m w = Inr (w2\<lparr>Log := Log w @ warnings @ [Created (schedule_period ?sched)]\<rparr>)"
    if "write_calendars fs ?sched w = Inr w2" for w2
    unfolding start write_calendars_Log using that by simp
  have failed: "main tz fs csv uids s m w = Inl (e, wf\<lparr>Log := Log w @ warnings\<rparr>)"
    if "write_calendars fs ?sched w = Inl (e, wf)" for e wf
    unfolding start write_calendars_Log using that by simp
  from create_events_length [OF assms(2)] have len: "length evs = length (map (minus_offset m) ne)" .
  have all: "main tz fs csv uids s m w =
      Inr \<lparr> Log = Log w @ warnings @ [Created (schedule_period ?sched)],
            Files = Files w @ (Interim_ics (schedule_period ?sched), evs) # proctor_files ?sched \<rparr>"
    if "\<forall>path. fs path"
    using written [OF write_calendars_accepted [OF that]] by (simp add: with_events_events [OF len])
  from n pass written failed all
  have "\<exists>warnings. length warnings = length (double_bookings ?sched)
          \<and> check_for_double_bookings ?sched w = Inr (w\<lparr>Log := Log w @ warnings\<rparr>)
          \<and> (\<forall>w2. write_calendars fs ?sched w = Inr w2 \<longrightarrow>
                main tz fs csv uids s m w =
                  Inr (w2\<lparr>Log := Log w @ warnings @ [Created (schedule_period ?sched)]\<rparr>))
          \<and> (\<forall>e wf. write_calendars fs ?sched w = Inl (e, wf) \<longrightarrow>
                main tz fs csv uids s m w = Inl (e, wf\<lparr>Log := Log w @ warnings\<rparr>))
          \<and> ((\<forall>path. fs path) \<longrightarrow>
                main tz fs csv uids s m w =
                  Inr \<lparr> Log = Log w @ warnings @ [Created (schedule_period ?sched)],
                        Files = Files w @ (Interim_ics (schedule_period ?sched), evs) # proctor_files ?sched \<rparr>)"
    by (intro exI [of _ warnings]) blast
  with only_warns show ?thesis by blast
qed

theorem double_bookings_never_fatal_witness:
  "length (double_bookings example_sched) = 1
   \<and> (\<exists>warnings. length warnings = 1
         \<and> main Some (\<lambda>path. True) example_csv example_uids example_sheet 30 empty_world =
             Inr \<lparr> Log = warnings @ [Created (Some 19905)],
                   Files = [(Interim_ics (Some 19905), example_events),
                            (Processed_ics (Some 19905) ''Ann'', example_events),
                            (Processed_ics (Some 19905) ''Cy'', [example_events ! 1]),
                            (Processed_ics (Some 19905) ''Bob'', [example_events ! 1])] \<rparr>
         \<and> main Some (\<lambda>path. path \<noteq> Processed_ics (Some 19905) ''Cy'') example_csv example_uids
               example_sheet 30 empty_world =
             Inl (OSError,
                  \<lparr> Log = warnings,
                    Files = [(Interim_ics (Some 19905), example_events),
                             (Processed_ics (Some 19905) ''Ann'', example_events)] \<rparr>))"
proof -
  have one: "length (double_bookings example_sched) = 1"
    by (simp add: double_bookings_example)
  have groups: "group_by_Proctor (explode example_sched) =
      [(Some ''Ann'', [(fst (example_sched ! 0), Some ''Ann'', example_events ! 0),
                       (fst (example_sched ! 1), Some ''Ann'', example_events ! 1)]),
       (Some ''Cy'', [(fst (example_sched ! 1), Some ''Cy'', example_events ! 1)]),
       (Some ''Bob'', [(fst (example_sched ! 1), Some ''Bob'', example_events ! 1)])]"
    by (simp add: group_by_Proctor_def explode_def explode_row_def example_sched_def)
  have evs: "[example_events ! 0, example_events ! Suc 0] = example_events"
    by (simp add: example_events_def)
  have fail: "write_calendars (\<lambda>path. path \<noteq> Processed_ics (Some 19905) ''Cy'') example_sched empty_world
      = Inl (OSError, \<lparr> Log = [], Files = [(Interim_ics (Some 19905), example_events),
                             (Processed_ics (Some 19905) ''Ann'', example_events)] \<rparr>)"
    unfolding write_calendars_def period_example events_of_example groups
    by (simp add: write_ics_def write_proctor_def fmt_def empty_world_def evs)
  from double_bookings_never_fatal [OF clean_example events_example, where w = empty_world
      and fs = "\<lambda>path. True"]
  obtain ws where nw: "length ws = length (double_bookings example_sched)"
    and pass: "check_for_double_bookings example_sched empty_world = Inr (empty_world\<lparr>Log := Log empty_world @ ws\<rparr>)"
    and ok: "main Some (\<lambda>path. True) example_csv example_uids example_sheet 30 empty_world =
                  Inr \<lparr> Log = Log empty_world @ ws @ [Created (schedule_period example_sched)],
                        Files = Files empty_world @ (Interim_ics (schedule_period example_sched), example_events)
                           # proctor_files example_sched \<rparr>"
    unfolding sched_example by blast
  from double_bookings_never_fatal [OF clean_example events_example, where w = empty_world
      and fs = "\<lambda>path. path \<noteq> Processed_ics (Some 19905) ''Cy''"]
  obtain ws' where pass': "check_for_double_bookings example_sched empty_world
        = Inr (empty_world\<lparr>Log := Log empty_world @ ws'\<rparr>)"
    and bad: "\<forall>e wf. write_calendars (\<lambda>path. path \<noteq> Processed_ics (Some 19905) ''Cy'') example_sched empty_world
                = Inl (e, wf) \<longrightarrow>
              main Some (\<lambda>path. path \<noteq> Processed_ics (Some 19905) ''Cy'') example_csv example_uids
                example_sheet 30 empty_world = Inl (e, wf\<lparr>Log := Log empty_world @ ws'\<rparr>)"
    unfolding sched_example by blast
  from pass pass' have same: "ws' = ws" by (simp add: empty_world_def)
  from nw one have nw': "length ws = 1" by simp
  from ok have ok': "main Some (\<lambda>path. True) example_csv example_uids example_sheet 30 empty_world =
             Inr \<lparr> Log = ws @ [Created (Some 19905)],
                   Files = [(Interim_ics (Some 19905), example_events),
                            (Processed_ics (Some 19905) ''Ann'', example_events),
                            (Processed_ics (Some 19905) ''Cy'', [example_events ! 1]),
                            (Processed_ics (Some 19905) ''Bob'', [example_events ! 1])] \<rparr>"
    by (simp add: period_example proctor_files_example empty_world_def)
  from bad fail same have bad': "main Some (\<lambda>path. path \<noteq> Processed_ics (Some 19905) ''Cy'') example_csv example_uids
               example_sheet 30 empty_world =
             Inl (OSError,
                  \<lparr> Log = ws,
                    Files = [(Interim_ics (Some 19905), example_events),
                             (Processed_ics (Some 19905) ''Ann'', example_events)] \<rparr>)"
    by (simp add: empty_world_def)
  show ?thesis
    by (intro conjI exI [of _ ws]) (rule one nw' ok' bad')+
qed

end
